theory Spec2Isabelle
  imports Main "HOL-Library.Multiset"
begin

section \<open>Python string operations used by \<open>parse_nwchem.py\<close>\<close>

text \<open>
  Texts are ASCII (the NWChem basis files are): a \<open>char\<close> is one code point below 128.
  The character classes are those of Python's \<open>str\<close> restricted to that range.
\<close>

definition isspace :: "char \<Rightarrow> bool" where
  \<comment> \<open>\<open>str.isspace\<close>: tab, LF, VT, FF, CR, FS, GS, RS, US and the blank\<close>
  "isspace c \<longleftrightarrow> (let n = (of_char c :: nat) in (9 \<le> n \<and> n \<le> 13) \<or> (28 \<le> n \<and> n \<le> 32))"

definition isalpha :: "char \<Rightarrow> bool" where
  "isalpha c \<longleftrightarrow> (let n = (of_char c :: nat) in (65 \<le> n \<and> n \<le> 90) \<or> (97 \<le> n \<and> n \<le> 122))"

definition isdigit :: "char \<Rightarrow> bool" where
  "isdigit c \<longleftrightarrow> (let n = (of_char c :: nat) in 48 \<le> n \<and> n \<le> 57)"

definition is_linebreak :: "char \<Rightarrow> bool" where
  \<comment> \<open>the ASCII line boundaries of \<open>str.splitlines\<close>: LF, VT, FF, CR, FS, GS, RS\<close>
  "is_linebreak c \<longleftrightarrow> (let n = (of_char c :: nat) in (10 \<le> n \<and> n \<le> 13) \<or> (28 \<le> n \<and> n \<le> 30))"

definition upper_char :: "char \<Rightarrow> char" where
  "upper_char c = (let n = (of_char c :: nat) in if 97 \<le> n \<and> n \<le> 122 then char_of (n - 32) else c)"

definition upper :: "string \<Rightarrow> string" where
  "upper s = map upper_char s"

definition strip :: "string \<Rightarrow> string" where
  \<comment> \<open>\<open>s.strip()\<close>\<close>
  "strip s = rev (dropWhile isspace (rev (dropWhile isspace s)))"

definition startswith :: "string \<Rightarrow> string \<Rightarrow> bool" where
  \<comment> \<open>\<open>s.startswith(p)\<close>\<close>
  "startswith s p \<longleftrightarrow> take (length p) s = p"

definition before_hash :: "string \<Rightarrow> string" where
  \<comment> \<open>\<open>s.split('#')[0]\<close>\<close>
  "before_hash s = takeWhile (\<lambda>c. c \<noteq> CHR ''#'') s"

definition replace_D :: "string \<Rightarrow> string" where
  \<comment> \<open>\<open>s.replace('D','e')\<close>\<close>
  "replace_D s = map (\<lambda>c. if c = CHR ''D'' then CHR ''e'' else c) s"

fun splitlines_from :: "string \<Rightarrow> string \<Rightarrow> string list" where
  "splitlines_from cur [] = (if cur = [] then [] else [cur])"
| "splitlines_from cur [c] = (if is_linebreak c then [cur] else [cur @ [c]])"
| "splitlines_from cur (c # d # cs) =
     (if c = CHR 0x0D \<and> d = CHR 0x0A then cur # splitlines_from [] cs
      else if is_linebreak c then cur # splitlines_from [] (d # cs)
      else splitlines_from (cur @ [c]) (d # cs))"

definition splitlines :: "string \<Rightarrow> string list" where
  \<comment> \<open>\<open>s.splitlines()\<close>: no line for the empty rest after a final line break\<close>
  "splitlines s = splitlines_from [] s"

fun split_from :: "string \<Rightarrow> string \<Rightarrow> string list" where
  "split_from cur [] = (if cur = [] then [] else [cur])"
| "split_from cur (c # cs) =
     (if isspace c then (if cur = [] then split_from [] cs else cur # split_from [] cs)
      else split_from (cur @ [c]) cs)"

definition py_split :: "string \<Rightarrow> string list" where
  \<comment> \<open>\<open>s.split()\<close>: the maximal runs of non-blank characters\<close>
  "py_split s = split_from [] s"

definition py_split1 :: "string \<Rightarrow> string list" where
  \<comment> \<open>\<open>s.split(None, 1)\<close>: the first token, then the rest without its leading blanks (if any is left)\<close>
  "py_split1 s =
     (let s1 = dropWhile isspace s in
      if s1 = [] then []
      else
        let tok = takeWhile (\<lambda>c. \<not> isspace c) s1;
            rest = dropWhile isspace (dropWhile (\<lambda>c. \<not> isspace c) s1)
        in if rest = [] then [tok] else [tok, rest])"

section \<open>Errors and data model\<close>

datatype error = KeyError | IndexError | ValueError | UnboundLocalError

text \<open>
  A shell \<open>[l, row, row, ...]\<close> is the pair of \<open>l\<close> and its rows; a row is a list of numbers.
  The numbers are Python floats: their type \<open>'f\<close> and the conversion \<open>float(x)\<close> are parameters
  of the model (\<open>flt x = None\<close> when \<open>float(x)\<close> raises ValueError).
\<close>

type_synonym 'f shell = "int \<times> 'f list list"

definition MAXL :: nat where
  "MAXL = 8"

definition SPDF :: "string list" where
  "SPDF = [''S'', ''P'', ''D'', ''F'', ''G'', ''H'', ''I'', ''K'']"

definition MAPSPDF :: "string \<Rightarrow> int option" where
  "MAPSPDF = map_of [(''S'', 0), (''P'', 1), (''D'', 2), (''F'', 3),
                     (''G'', 4), (''H'', 5), (''I'', 6), (''K'', 7)]"

fun floats :: "(string \<Rightarrow> 'f option) \<Rightarrow> string list \<Rightarrow> error + 'f list" where
  \<comment> \<open>\<open>[float(x) for x in toks]\<close>\<close>
  "floats flt [] = Inr []"
| "floats flt (x # xs) =
     (case flt x of None \<Rightarrow> Inl ValueError
      | Some v \<Rightarrow> (case floats flt xs of Inl e \<Rightarrow> Inl e | Inr vs \<Rightarrow> Inr (v # vs)))"

definition py_index :: "nat \<Rightarrow> int \<Rightarrow> nat option" where
  \<comment> \<open>the position that the index \<open>i\<close> names in a sequence of \<open>n\<close> items (a negative
      index counts from the end); \<open>None\<close> when Python raises IndexError\<close>
  "py_index n i =
     (if 0 \<le> i \<and> i < int n then Some (nat i)
      else if i < 0 \<and> - int n \<le> i then Some (nat (int n + i))
      else None)"

definition get :: "'a list \<Rightarrow> int \<Rightarrow> error + 'a" where
  \<comment> \<open>\<open>xs[i]\<close>\<close>
  "get xs i = (case py_index (length xs) i of None \<Rightarrow> Inl IndexError | Some j \<Rightarrow> Inr (xs ! j))"

definition append_at :: "'f shell list \<Rightarrow> int \<Rightarrow> 'f list \<Rightarrow> error + 'f shell list" where
  \<comment> \<open>\<open>basis_add[i].append(row)\<close>\<close>
  "append_at basis_add i row =
     (case py_index (length basis_add) i of
        None \<Rightarrow> Inl IndexError
      | Some j \<Rightarrow> Inr (basis_add[j := (fst (basis_add ! j), snd (basis_add ! j) @ [row])]))"

section \<open>\<open>_parse\<close>\<close>

text \<open>
  The loop state of \<open>_parse\<close>: the list \<open>basis_add\<close> and the variable \<open>key\<close>,
  which is unbound (\<open>None\<close>) until the first header line.
\<close>

type_synonym 'f pstate = "'f shell list \<times> string option"

definition parse_step :: "(string \<Rightarrow> 'f option) \<Rightarrow> 'f pstate \<Rightarrow> string \<Rightarrow> error + 'f pstate" where
  "parse_step flt st line =
     (let basis_add = fst st; key = snd st; dat = strip line in
      if dat = [] \<or> startswith dat ''#'' then Inr st
      else if isalpha (hd dat) then
        (case get (py_split dat) 1 of
           Inl e \<Rightarrow> Inl e
         | Inr k \<Rightarrow>
             if k = ''SP'' then Inr (basis_add @ [(0, []), (1, [])], Some k)
             else (case MAPSPDF k of
                     None \<Rightarrow> Inl KeyError
                   | Some l \<Rightarrow> Inr (basis_add @ [(l, [])], Some k)))
      else
        (case floats flt (py_split (replace_D dat)) of
           Inl e \<Rightarrow> Inl e
         | Inr ln \<Rightarrow>
             (case key of
                None \<Rightarrow> Inl UnboundLocalError
              | Some k \<Rightarrow>
                  if k = ''SP'' then
                    (case get ln 0 of Inl e \<Rightarrow> Inl e | Inr e0 \<Rightarrow>
                     case get ln 1 of Inl e \<Rightarrow> Inl e | Inr c1 \<Rightarrow>
                     case append_at basis_add (- 2) [e0, c1] of Inl e \<Rightarrow> Inl e | Inr b1 \<Rightarrow>
                     case get ln 2 of Inl e \<Rightarrow> Inl e | Inr c2 \<Rightarrow>
                     case append_at b1 (- 1) [e0, c2] of Inl e \<Rightarrow> Inl e | Inr b2 \<Rightarrow>
                     Inr (b2, key))
                  else
                    (case append_at basis_add (- 1) ln of Inl e \<Rightarrow> Inl e | Inr b1 \<Rightarrow>
                     Inr (b1, key)))))"

fun parse_loop :: "(string \<Rightarrow> 'f option) \<Rightarrow> 'f pstate \<Rightarrow> string list \<Rightarrow> error + 'f pstate" where
  "parse_loop flt st [] = Inr st"
| "parse_loop flt st (line # rest) =
     (case parse_step flt st line of Inl e \<Rightarrow> Inl e | Inr st' \<Rightarrow> parse_loop flt st' rest)"

definition by_l :: "int list \<Rightarrow> (int \<times> 'b) list \<Rightarrow> (int \<times> 'b) list" where
  \<comment> \<open>\<open>for l in ls: bsort.extend([b for b in bs if b[0] == l])\<close>\<close>
  "by_l ls bs = concat (map (\<lambda>l. filter (\<lambda>b. fst b = l) bs) ls)"

definition basis_add_of :: "(string \<Rightarrow> 'f option) \<Rightarrow> string list \<Rightarrow> error + 'f shell list" where
  \<comment> \<open>the list \<open>basis_add\<close> when the loop of \<open>_parse\<close> is over\<close>
  "basis_add_of flt raw_basis =
     (case parse_loop flt ([], None) raw_basis of Inl e \<Rightarrow> Inl e | Inr st \<Rightarrow> Inr (fst st))"

definition priv_parse :: "(string \<Rightarrow> 'f option) \<Rightarrow> string list \<Rightarrow> error + 'f shell list" where
  \<comment> \<open>\<open>_parse\<close>\<close>
  "priv_parse flt raw_basis =
     (case basis_add_of flt raw_basis of
        Inl e \<Rightarrow> Inl e
      | Inr basis_add \<Rightarrow> Inr (by_l [0 .. int MAXL - 1] basis_add))"

section \<open>\<open>parse\<close>\<close>

definition match_delim :: "string \<Rightarrow> string option" where
  \<comment> \<open>\<open>BASIS_SET_DELIMITER = re.compile('# *BASIS SET.*\n')\<close> matched at the start of \<open>s\<close>:
      the text after the match. The blanks and \<open>.*\<close> (which stops at a newline) are greedy,
      and no shorter choice can match what follows them.\<close>
  "match_delim s =
     (case s of
        [] \<Rightarrow> None
      | c # cs \<Rightarrow>
          if c \<noteq> CHR ''#'' then None
          else
            let t = dropWhile (\<lambda>c. c = CHR '' '') cs in
            if \<not> startswith t ''BASIS SET'' then None
            else (case dropWhile (\<lambda>c. c \<noteq> CHR ''\<newline>'') (drop 9 t) of
                    [] \<Rightarrow> None
                  | _ # rest \<Rightarrow> Some rest))"

function re_split_from :: "string \<Rightarrow> string \<Rightarrow> string list" where
  "re_split_from cur [] = [cur]"
| "re_split_from cur (c # cs) =
     (case match_delim (c # cs) of
        Some rest \<Rightarrow> cur # re_split_from [] rest
      | None \<Rightarrow> re_split_from (cur @ [c]) cs)"
  by pat_completeness auto
termination
proof (relation "measure (\<lambda>(cur, s). length s)")
  fix cur :: string and c :: char and cs rest :: string
  assume a: "match_delim (c # cs) = Some rest"
  let ?t = "dropWhile (\<lambda>c. c = CHR '' '') cs"
  let ?u = "dropWhile (\<lambda>c. c \<noteq> CHR ''\<newline>'') (drop 9 ?t)"
  from a have "\<exists>x. ?u = x # rest"
    by (auto simp: match_delim_def Let_def split: if_splits list.splits)
  then have "length rest < length ?u" by auto
  also have "\<dots> \<le> length (drop 9 ?t)" by (rule length_dropWhile_le)
  also have "\<dots> \<le> length ?t" by simp
  also have "\<dots> \<le> length cs" by (rule length_dropWhile_le)
  finally show "(([], rest), (cur, c # cs)) \<in> measure (\<lambda>(cur, s). length s)" by simp
qed simp_all

definition re_split :: "string \<Rightarrow> string list" where
  \<comment> \<open>\<open>re.split(BASIS_SET_DELIMITER, string)\<close>: the pieces between the leftmost matches\<close>
  "re_split s = re_split_from [] s"

definition first_token_is :: "string \<Rightarrow> string \<Rightarrow> bool" where
  \<comment> \<open>\<open>dat0 = dat.split(None, 1); dat0 and dat0[0] == symb\<close>\<close>
  "first_token_is symb dat = (case py_split1 dat of [] \<Rightarrow> False | t # _ \<Rightarrow> t = symb)"

definition priv_search_seg :: "string list \<Rightarrow> string \<Rightarrow> string option" where
  \<comment> \<open>\<open>_search_seg\<close>: the first chunk of \<open>raw_data[1:]\<close> whose first token is \<open>symb\<close>,
      \<open>None\<close> when the loop ends without a return\<close>
  "priv_search_seg raw_data symb = find (first_token_is symb) (drop 1 raw_data)"

definition clean_line :: "string \<Rightarrow> string" where
  \<comment> \<open>\<open>dat.split('#')[0].strip().upper()\<close>\<close>
  "clean_line dat = upper (strip (before_hash dat))"

definition bastxt_of :: "string \<Rightarrow> string list" where
  "bastxt_of string =
     filter (\<lambda>x. x \<noteq> [] \<and> \<not> startswith x ''END'' \<and> \<not> startswith x ''BASIS'')
       (map clean_line (splitlines string))"

definition segment_of :: "(string \<Rightarrow> string) \<Rightarrow> string \<Rightarrow> string option \<Rightarrow> error + string" where
  \<comment> \<open>the first lines of \<open>parse\<close>: the text that is parsed. \<open>std\<close> is \<open>_std_symbol\<close>\<close>
  "segment_of std string symb =
     (case symb of
        None \<Rightarrow> Inr string
      | Some s \<Rightarrow>
          (case priv_search_seg (re_split string) (std s) of
             None \<Rightarrow> Inl KeyError
           | Some seg \<Rightarrow> Inr seg))"

definition parse :: "(string \<Rightarrow> 'f option) \<Rightarrow> (string \<Rightarrow> string) \<Rightarrow> string \<Rightarrow> string option
    \<Rightarrow> error + 'f shell list" where
  "parse flt std string symb =
     (case segment_of std string symb of
        Inl e \<Rightarrow> Inl e
      | Inr seg \<Rightarrow> priv_parse flt (bastxt_of seg))"

section \<open>\<open>_parse_ecp\<close> and \<open>parse_ecp\<close>\<close>

text \<open>
  An ECP block \<open>[l, by_ang]\<close> is the pair of \<open>l\<close> and its four power slots, each a list of
  rows. The result \<open>[nelec, bsort]\<close> is a pair; \<open>Inr None\<close> is the return of \<open>None\<close>,
  when the function ends without a \<open>return\<close>.
\<close>

type_synonym 'f block = "int \<times> 'f list list list"

type_synonym 'f ecp = "int \<times> 'f block list"

fun int_digits :: "nat \<Rightarrow> string \<Rightarrow> nat option" where
  \<comment> \<open>the digits after the first one; a single underscore may stand between two digits\<close>
  "int_digits acc [] = Some acc"
| "int_digits acc [c] =
     (if isdigit c then Some (10 * acc + (of_char c - 48)) else None)"
| "int_digits acc (c # d # cs) =
     (if isdigit c then int_digits (10 * acc + (of_char c - 48)) (d # cs)
      else if c = CHR ''_'' \<and> isdigit d then int_digits (10 * acc + (of_char d - 48)) cs
      else None)"

definition nat_of_str :: "string \<Rightarrow> nat option" where
  "nat_of_str s =
     (case s of
        [] \<Rightarrow> None
      | c # cs \<Rightarrow> if isdigit c then int_digits (of_char c - 48) cs else None)"

definition int_of_str :: "string \<Rightarrow> int option" where
  \<comment> \<open>\<open>int(x)\<close> of a token without blanks: an optional sign and decimal digits;
      \<open>None\<close> when \<open>int\<close> raises ValueError\<close>
  "int_of_str s =
     (case s of
        [] \<Rightarrow> None
      | c # cs \<Rightarrow>
          if c = CHR ''-'' then map_option (\<lambda>n. - int n) (nat_of_str cs)
          else if c = CHR ''+'' then map_option int (nat_of_str cs)
          else map_option int (nat_of_str s))"

text \<open>
  The loop state of \<open>_parse_ecp\<close>: the list \<open>ecp_add\<close> and \<open>nelec\<close>. The variable
  \<open>by_ang\<close> is assigned right after each append to \<open>ecp_add\<close> and nowhere else, and it is
  the very list stored in the block appended last: it is unbound exactly while \<open>ecp_add\<close>
  is empty, and \<open>by_ang[l].append(row)\<close> changes the last block of \<open>ecp_add\<close>.
\<close>

type_synonym 'f estate = "'f block list \<times> int option"

definition append_slot :: "'f block list \<Rightarrow> int \<Rightarrow> string list \<Rightarrow> (string \<Rightarrow> 'f option)
    \<Rightarrow> error + 'f block list" where
  \<comment> \<open>\<open>by_ang[l].append([float(x) for x in toks])\<close>: the name, then the index, then the floats\<close>
  "append_slot ecp_add l toks flt =
     (if ecp_add = [] then Inl UnboundLocalError
      else
        let b = last ecp_add; by_ang = snd b in
        (case py_index (length by_ang) l of
           None \<Rightarrow> Inl IndexError
         | Some j \<Rightarrow>
             (case floats flt toks of
                Inl e \<Rightarrow> Inl e
              | Inr row \<Rightarrow> Inr (butlast ecp_add @ [(fst b, by_ang[j := by_ang ! j @ [row]])]))))"

definition ecp_step :: "(string \<Rightarrow> 'f option) \<Rightarrow> 'f estate \<Rightarrow> string \<Rightarrow> error + 'f estate" where
  "ecp_step flt st line =
     (let ecp_add = fst st; nelec = snd st; dat = strip line in
      if dat = [] \<or> startswith dat ''#'' then Inr st
      else if isalpha (hd dat) then
        (case get (py_split dat) 1 of
           Inl e \<Rightarrow> Inl e
         | Inr key \<Rightarrow>
             if key = ''NELEC'' then
               (case get (py_split dat) 2 of
                  Inl e \<Rightarrow> Inl e
                | Inr n \<Rightarrow>
                    (case int_of_str n of
                       None \<Rightarrow> Inl ValueError
                     | Some v \<Rightarrow> Inr (ecp_add, Some v)))
             else if key = ''UL'' then Inr (ecp_add @ [(- 1, [[], [], [], []])], nelec)
             else (case MAPSPDF key of
                     None \<Rightarrow> Inl KeyError
                   | Some l \<Rightarrow> Inr (ecp_add @ [(l, [[], [], [], []])], nelec)))
      else
        (case py_split (replace_D dat) of
           [] \<Rightarrow> Inl IndexError
         | p # toks \<Rightarrow>
             (case int_of_str p of
                None \<Rightarrow> Inl ValueError
              | Some l \<Rightarrow>
                  (case append_slot ecp_add l toks flt of
                     Inl e \<Rightarrow> Inl e
                   | Inr ecp_add' \<Rightarrow> Inr (ecp_add', nelec)))))"

fun ecp_loop :: "(string \<Rightarrow> 'f option) \<Rightarrow> 'f estate \<Rightarrow> string list \<Rightarrow> error + 'f estate" where
  "ecp_loop flt st [] = Inr st"
| "ecp_loop flt st (line # rest) =
     (case ecp_step flt st line of Inl e \<Rightarrow> Inl e | Inr st' \<Rightarrow> ecp_loop flt st' rest)"

definition priv_parse_ecp :: "(string \<Rightarrow> 'f option) \<Rightarrow> string list \<Rightarrow> error + 'f ecp option" where
  \<comment> \<open>\<open>_parse_ecp\<close>\<close>
  "priv_parse_ecp flt raw_ecp =
     (case ecp_loop flt ([], None) raw_ecp of
        Inl e \<Rightarrow> Inl e
      | Inr st \<Rightarrow>
          (case snd st of
             None \<Rightarrow> Inr None
           | Some nelec \<Rightarrow> Inr (Some (nelec, by_l [- 1 .. int MAXL - 1] (fst st)))))"

fun last_index :: "string \<Rightarrow> (nat \<times> string) list \<Rightarrow> nat option \<Rightarrow> nat option" where
  \<comment> \<open>\<open>for i, dat in enumerate(raw_data): ... break\<close>: the value of \<open>i\<close> after the loop,
      \<open>None\<close> while it is unbound\<close>
  "last_index symb [] i = i"
| "last_index symb ((j, dat) # rest) i =
     (if first_token_is symb dat then Some j else last_index symb rest (Some j))"

fun seg_loop :: "string \<Rightarrow> string list \<Rightarrow> string list \<Rightarrow> error + string list" where
  \<comment> \<open>\<open>for dat in raw_data[i:]\<close>: \<open>dat[0]\<close> is read before \<open>dat\<close> is tested\<close>
  "seg_loop symb [] seg = Inr seg"
| "seg_loop symb (dat0 # rest) seg =
     (let dat = upper (strip dat0) in
      case dat of
        [] \<Rightarrow> Inl IndexError
      | c # _ \<Rightarrow>
          (case (if isalpha c then get (py_split1 dat) 0 else Inr (upper symb)) of
             Inl e \<Rightarrow> Inl e
           | Inr t \<Rightarrow>
               if isalpha c \<and> t \<noteq> upper symb then Inr seg
               else seg_loop symb rest (seg @ [dat])))"

definition ecp_segment :: "(string \<Rightarrow> string) \<Rightarrow> string \<Rightarrow> string option \<Rightarrow> error + string list" where
  \<comment> \<open>the list \<open>seg\<close> of \<open>parse_ecp\<close>\<close>
  "ecp_segment std string symb =
     (case symb of
        None \<Rightarrow> Inr (splitlines string)
      | Some s \<Rightarrow>
          let symb = std s; raw_data = splitlines string in
          (case last_index symb (enumerate 0 raw_data) None of
             None \<Rightarrow> Inl UnboundLocalError
           | Some i \<Rightarrow>
               if i + 1 = length raw_data then Inl KeyError
               else seg_loop symb (drop i raw_data) []))"

definition ecptxt_of :: "string list \<Rightarrow> string list" where
  "ecptxt_of seg =
     filter (\<lambda>x. x \<noteq> [] \<and> \<not> startswith x ''END'' \<and> \<not> startswith x ''ECP'')
       (map clean_line seg)"

definition parse_ecp :: "(string \<Rightarrow> 'f option) \<Rightarrow> (string \<Rightarrow> string) \<Rightarrow> string \<Rightarrow> string option
    \<Rightarrow> error + 'f ecp option" where
  "parse_ecp flt std string symb =
     (case ecp_segment std string symb of
        Inl e \<Rightarrow> Inl e
      | Inr seg \<Rightarrow> priv_parse_ecp flt (ecptxt_of seg))"

section \<open>\<open>convert_basis_to_nwchem\<close>\<close>

definition lower_char :: "char \<Rightarrow> char" where
  "lower_char c = (let n = (of_char c :: nat) in if 65 \<le> n \<and> n \<le> 90 then char_of (n + 32) else c)"

definition lower :: "string \<Rightarrow> string" where
  "lower s = map lower_char s"

function str_digits :: "int \<Rightarrow> string" where
  \<comment> \<open>the decimal digits of \<open>n \<ge> 0\<close>\<close>
  "str_digits n =
     (if n < 10 then [char_of (48 + n)] else str_digits (n div 10) @ [char_of (48 + n mod 10)])"
  by pat_completeness auto
termination
  by (relation "measure nat") auto

declare str_digits.simps [simp del]

definition py_str :: "int \<Rightarrow> string" where
  \<comment> \<open>\<open>str(n)\<close> of an integer\<close>
  "py_str n = (if n < 0 then CHR ''-'' # str_digits (- n) else str_digits n)"

fun join :: "string \<Rightarrow> string list \<Rightarrow> string" where
  \<comment> \<open>\<open>sep.join(xs)\<close>\<close>
  "join sep [] = []"
| "join sep [x] = x"
| "join sep (x # y # ys) = x @ sep @ join sep (y # ys)"

definition ljust2 :: "string \<Rightarrow> string" where
  \<comment> \<open>\<open>'%-2s' % s\<close>\<close>
  "ljust2 s = s @ replicate (2 - length s) CHR '' ''"

fun map_err :: "('a \<Rightarrow> error + 'b) \<Rightarrow> 'a list \<Rightarrow> error + 'b list" where
  \<comment> \<open>a loop or comprehension that stops at the first error\<close>
  "map_err f [] = Inr []"
| "map_err f (x # xs) =
     (case f x of
        Inl e \<Rightarrow> Inl e
      | Inr y \<Rightarrow> (case map_err f xs of Inl e \<Rightarrow> Inl e | Inr ys \<Rightarrow> Inr (y # ys)))"

definition nctr_of :: "'f shell \<Rightarrow> error + int" where
  \<comment> \<open>\<open>len(b[1])-1\<close>: \<open>b[1]\<close> is the first row\<close>
  "nctr_of b = (case get (snd b) 0 of Inl e \<Rightarrow> Inl e | Inr row \<Rightarrow> Inr (int (length row) - 1))"

definition count_step :: "(int \<rightharpoonup> int \<times> int) \<Rightarrow> int \<times> int \<times> int \<Rightarrow> (int \<rightharpoonup> int \<times> int)" where
  \<comment> \<open>one round of the loop that fills the dictionary \<open>prim_to_ctr\<close>\<close>
  "count_step m x =
     (let l = fst x; nprim = fst (snd x); nctr = snd (snd x) in
      case m l of
        Some pc \<Rightarrow> m(l \<mapsto> (fst pc + nprim, snd pc + nctr))
      | None \<Rightarrow> m(l \<mapsto> (nprim, nctr)))"

definition label_of :: "(int \<rightharpoonup> int \<times> int) \<Rightarrow> int \<Rightarrow> error + string \<times> string" where
  \<comment> \<open>\<open>str(prim_to_ctr[l][0])+SPDF[l].lower()\<close> and the same with \<open>[1]\<close>\<close>
  "label_of prim_to_ctr l =
     (case prim_to_ctr l of
        None \<Rightarrow> Inl KeyError
      | Some pc \<Rightarrow>
          (case get SPDF l of
             Inl e \<Rightarrow> Inl e
           | Inr nm \<Rightarrow> Inr (py_str (fst pc) @ lower nm, py_str (snd pc) @ lower nm)))"

definition shell_lines :: "('f \<Rightarrow> string) \<Rightarrow> string \<Rightarrow> 'f shell \<Rightarrow> error + string list" where
  \<comment> \<open>pass 2 for one shell: the header line, then a line for each row\<close>
  "shell_lines fmt symb bas =
     (case get SPDF (fst bas) of
        Inl e \<Rightarrow> Inl e
      | Inr nm \<Rightarrow>
          Inr ((ljust2 symb @ ''    '' @ nm) # map (\<lambda>dat. join '' '' (map fmt dat)) (snd bas)))"

text \<open>
  \<open>fmt x\<close> is \<open>'%15.9f' % x\<close>, and \<open>set_iter ls\<close> is the order in which Python iterates
  over \<open>set(ls)\<close>; both are parameters, as \<open>flt\<close> and \<open>std\<close> are.
\<close>

definition convert_basis_to_nwchem :: "('f \<Rightarrow> string) \<Rightarrow> (string \<Rightarrow> string) \<Rightarrow> (int list \<Rightarrow> int list)
    \<Rightarrow> string \<Rightarrow> 'f shell list \<Rightarrow> error + string" where
  "convert_basis_to_nwchem fmt std set_iter symb0 basis =
     (let symb = std symb0;
          ls = map fst basis;
          nprims = map (\<lambda>b. int (length (snd b))) basis
      in
      case map_err nctr_of basis of
        Inl e \<Rightarrow> Inl e
      | Inr nctrs \<Rightarrow>
          let prim_to_ctr = foldl count_step Map.empty (zip ls (zip nprims nctrs)) in
          (case map_err (label_of prim_to_ctr) (set_iter ls) of
             Inl e \<Rightarrow> Inl e
           | Inr labels \<Rightarrow>
               let comment = ''#BASIS SET: ('' @ join '','' (map fst labels) @ '') -> [''
                               @ join '','' (map snd labels) @ '']''
               in
               (case map_err (shell_lines fmt symb) basis of
                  Inl e \<Rightarrow> Inl e
                | Inr blocks \<Rightarrow> Inr (join ''\<newline>'' (comment # concat blocks)))))"

section \<open>An instance of the number parameters\<close>

text \<open>
  Fixed-point numbers with nine decimals, stored as the integer number of \<open>10\<^sup>-\<^sup>9\<close>:
  a reader of plain decimal literals and the printer of \<open>%15.9f\<close>. The theorems hold for any
  \<open>flt\<close> and \<open>fmt\<close>; this instance runs them on concrete texts.
\<close>

definition digits_val :: "string \<Rightarrow> int" where
  "digits_val s = foldl (\<lambda>acc c. 10 * acc + (of_char c - 48)) 0 s"

definition fix_flt :: "string \<Rightarrow> int option" where
  "fix_flt s =
     (let neg = (s \<noteq> [] \<and> hd s = CHR ''-'');
          body = (if s \<noteq> [] \<and> (hd s = CHR ''-'' \<or> hd s = CHR ''+'') then tl s else s);
          ip = takeWhile isdigit body;
          rest = dropWhile isdigit body;
          fr = (if rest = [] then [] else tl rest)
      in
      if (ip = [] \<and> fr = []) \<or> (rest \<noteq> [] \<and> hd rest \<noteq> CHR ''.'') \<or> \<not> list_all isdigit fr then None
      else
        let v = digits_val ip * 10 ^ 9 + digits_val (take 9 (fr @ replicate 9 CHR ''0''))
        in Some (if neg then - v else v))"

definition fix_fmt :: "int \<Rightarrow> string" where
  "fix_fmt v =
     (let a = \<bar>v\<bar>;
          fr = str_digits (a mod 10 ^ 9);
          body = (if v < 0 then ''-'' else []) @ str_digits (a div 10 ^ 9) @ ''.''
                   @ replicate (9 - length fr) CHR ''0'' @ fr
      in replicate (15 - length body) CHR '' '' @ body)"

definition sorted_set :: "int list \<Rightarrow> int list" where
  \<comment> \<open>an iteration order of \<open>set(ls)\<close>: ascending\<close>
  "sorted_set ls = sort (remdups ls)"

section \<open>Predicates of the properties\<close>

definition basis_before_sort :: "(string \<Rightarrow> 'f option) \<Rightarrow> (string \<Rightarrow> string) \<Rightarrow> string \<Rightarrow> string option
    \<Rightarrow> error + 'f shell list" where
  \<comment> \<open>the shells of \<open>parse\<close> in input order: \<open>basis_add\<close> before \<open>_parse\<close> sorts it\<close>
  "basis_before_sort flt std string symb =
     (case segment_of std string symb of
        Inl e \<Rightarrow> Inl e
      | Inr seg \<Rightarrow> basis_add_of flt (bastxt_of seg))"

definition ecp_before_sort :: "(string \<Rightarrow> 'f option) \<Rightarrow> (string \<Rightarrow> string) \<Rightarrow> string \<Rightarrow> string option
    \<Rightarrow> error + 'f block list" where
  \<comment> \<open>the blocks of \<open>parse_ecp\<close> in input order: \<open>ecp_add\<close> before \<open>_parse_ecp\<close> sorts it\<close>
  "ecp_before_sort flt std string symb =
     (case ecp_segment std string symb of
        Inl e \<Rightarrow> Inl e
      | Inr seg \<Rightarrow>
          (case ecp_loop flt ([], None) (ecptxt_of seg) of
             Inl e \<Rightarrow> Inl e
           | Inr st \<Rightarrow> Inr (fst st)))"

definition is_nelec_header :: "string \<Rightarrow> bool" where
  \<comment> \<open>a line that \<open>_parse_ecp\<close> takes for a header with the key \<open>NELEC\<close>\<close>
  "is_nelec_header line =
     (let dat = strip line in
      dat \<noteq> [] \<and> \<not> startswith dat ''#'' \<and> isalpha (hd dat) \<and> get (py_split dat) 1 = Inr ''NELEC'')"

definition ecp_lines :: "(string \<Rightarrow> string) \<Rightarrow> string \<Rightarrow> string option \<Rightarrow> string list" where
  \<comment> \<open>the lines \<open>ecptxt\<close> that \<open>parse_ecp\<close> hands to \<open>_parse_ecp\<close> (none when the segment search raises)\<close>
  "ecp_lines std string symb =
     (case ecp_segment std string symb of Inl e \<Rightarrow> [] | Inr seg \<Rightarrow> ecptxt_of seg)"

definition has_delimiter :: "string \<Rightarrow> bool" where
  \<comment> \<open>\<open>BASIS_SET_DELIMITER\<close> matches somewhere in the text\<close>
  "has_delimiter s = list_ex (\<lambda>i. match_delim (drop i s) \<noteq> None) [0 ..< length s]"

definition seg_continues :: "string \<Rightarrow> string \<Rightarrow> bool" where
  \<comment> \<open>a line that the segment loop of \<open>parse_ecp\<close> appends: it is not blank, and if it
      starts with a letter its first token is the upper-cased symbol\<close>
  "seg_continues symb line =
     (let dat = upper (strip line) in
      dat \<noteq> [] \<and> (isalpha (hd dat) \<longrightarrow> get (py_split1 dat) 0 = Inr (upper symb)))"

definition is_header :: "string \<Rightarrow> bool" where
  \<comment> \<open>a line that \<open>_parse\<close> takes for a header: not blank, no comment, a letter first\<close>
  "is_header line = (let dat = strip line in dat \<noteq> [] \<and> \<not> startswith dat ''#'' \<and> isalpha (hd dat))"

definition is_sp_header :: "string \<Rightarrow> bool" where
  \<comment> \<open>a header line whose second token is \<open>SP\<close>\<close>
  "is_sp_header line \<longleftrightarrow> is_header line \<and> get (py_split (strip line)) 1 = Inr ''SP''"

definition is_data :: "string \<Rightarrow> bool" where
  \<comment> \<open>a line that \<open>_parse\<close> takes for a data line\<close>
  "is_data line = (let dat = strip line in dat \<noteq> [] \<and> \<not> startswith dat ''#'' \<and> \<not> isalpha (hd dat))"

definition row_of :: "(string \<Rightarrow> 'f option) \<Rightarrow> string \<Rightarrow> 'f list" where
  \<comment> \<open>the numbers of a data line (none when a token is not a number)\<close>
  "row_of flt line =
     (case floats flt (py_split (replace_D (strip line))) of Inl e \<Rightarrow> [] | Inr r \<Rightarrow> r)"

definition data_rows :: "(string \<Rightarrow> 'f option) \<Rightarrow> string list \<Rightarrow> 'f list list" where
  "data_rows flt ds = map (row_of flt) (filter is_data ds)"

definition key_ok :: "string option \<Rightarrow> 'f shell list \<Rightarrow> bool" where
  \<comment> \<open>the shells that a bound \<open>key\<close> refers to are there: two for \<open>SP\<close>, one otherwise\<close>
  "key_ok key basis_add =
     (case key of
        None \<Rightarrow> True
      | Some k \<Rightarrow> if k = ''SP'' then 2 \<le> length basis_add else 1 \<le> length basis_add)"

definition prints_number :: "(string \<Rightarrow> 'f option) \<Rightarrow> ('f \<Rightarrow> string) \<Rightarrow> 'f \<Rightarrow> bool" where
  \<comment> \<open>\<open>'%15.9f' % x\<close> is blanks, then a token that \<open>float\<close> reads: it starts with no letter
      and holds no whitespace and no \<open>#\<close> (so \<open>x\<close> is a finite number)\<close>
  "prints_number flt fmt x =
     (let tok = dropWhile (\<lambda>c. c = CHR '' '') (fmt x) in
      tok \<noteq> [] \<and> \<not> isalpha (hd tok) \<and> list_all (\<lambda>c. \<not> isspace c \<and> c \<noteq> CHR ''#'') tok
      \<and> flt (replace_D (upper tok)) \<noteq> None)"

definition read_back :: "(string \<Rightarrow> 'f option) \<Rightarrow> ('f \<Rightarrow> string) \<Rightarrow> 'f \<Rightarrow> 'f" where
  \<comment> \<open>\<open>float('%15.9f' % x)\<close>, as \<open>parse\<close> reads the token: upper-cased, \<open>D\<close> replaced\<close>
  "read_back flt fmt x = the (flt (replace_D (upper (dropWhile (\<lambda>c. c = CHR '' '') (fmt x)))))"

definition read_back_shell :: "(string \<Rightarrow> 'f option) \<Rightarrow> ('f \<Rightarrow> string) \<Rightarrow> 'f shell \<Rightarrow> 'f shell" where
  "read_back_shell flt fmt sh = (fst sh, map (map (read_back flt fmt)) (snd sh))"

definition symbol_ok :: "string \<Rightarrow> bool" where
  \<comment> \<open>a symbol that a header line can start with: a letter first, no whitespace, no \<open>#\<close>,
      and not one that makes \<open>parse\<close> drop the line (END..., BASIS...)\<close>
  "symbol_ok s \<longleftrightarrow>
     s \<noteq> [] \<and> isalpha (hd s) \<and> list_all (\<lambda>c. \<not> isspace c \<and> c \<noteq> CHR ''#'') s
     \<and> \<not> startswith (upper s) ''END'' \<and> \<not> startswith (upper s) ''BASIS''"

section \<open>Sorting by \<open>l\<close>\<close>

lemma by_l_Nil [simp]: "by_l [] bs = []"
  by (simp add: by_l_def)

lemma by_l_Cons [simp]: "by_l (l # ls) bs = filter (\<lambda>b. fst b = l) bs @ by_l ls bs"
  by (simp add: by_l_def)

lemma set_by_l: "set (by_l ls bs) = {b \<in> set bs. fst b \<in> set ls}"
  by (induction ls) auto

lemma sorted_by_l: "sorted ls \<Longrightarrow> sorted (map fst (by_l ls bs))"
proof (induction ls)
  case Nil
  then show ?case by simp
next
  case (Cons l ls)
  then have "sorted (map fst (by_l ls bs))" by simp
  moreover have "\<forall>x\<in>set (filter (\<lambda>b. fst b = l) bs). \<forall>y\<in>set (by_l ls bs). fst x \<le> fst y"
    using Cons.prems by (auto simp: set_by_l)
  moreover have "sorted (map fst (filter (\<lambda>b. fst b = l) bs))"
    by (induction bs) auto
  ultimately show ?case
    by (auto simp: sorted_append)
qed

lemma filter_by_l_notin: "l \<notin> set ls \<Longrightarrow> filter (\<lambda>b. fst b = l) (by_l ls bs) = []"
  by (induction ls) (auto simp: filter_empty_conv)

lemma filter_by_l_in:
  "distinct ls \<Longrightarrow> l \<in> set ls \<Longrightarrow> filter (\<lambda>b. fst b = l) (by_l ls bs) = filter (\<lambda>b. fst b = l) bs"
proof (induction ls)
  case Nil
  then show ?case by simp
next
  case (Cons k ls)
  show ?case
  proof (cases "k = l")
    case True
    with Cons.prems have "l \<notin> set ls" by simp
    then show ?thesis using True by (simp add: filter_by_l_notin)
  next
    case False
    then have "filter (\<lambda>b. fst b = l) (filter (\<lambda>b. fst b = k) bs) = []"
      by (auto simp: filter_empty_conv)
    with False Cons show ?thesis by simp
  qed
qed

lemma mset_by_l: "distinct ls \<Longrightarrow> mset (by_l ls bs) = mset (filter (\<lambda>b. fst b \<in> set ls) bs)"
proof (induction ls)
  case Nil
  then show ?case by simp
next
  case (Cons l ls)
  then have notin: "l \<notin> set ls" and ih: "mset (by_l ls bs) = mset (filter (\<lambda>b. fst b \<in> set ls) bs)"
    by simp_all
  have "mset (filter (\<lambda>b. fst b = l) bs) + mset (filter (\<lambda>b. fst b \<in> set ls) bs)
      = mset (filter (\<lambda>b. fst b \<in> set (l # ls)) bs)"
    using notin by (induction bs) auto
  with ih show ?case by simp
qed

text \<open>When every \<open>l\<close> of the list is among the sorted, distinct keys, grouping is a stable sort.\<close>

lemma by_l_stable_sort:
  assumes "sorted ls" "distinct ls" "\<forall>b\<in>set bs. fst b \<in> set ls"
  shows "sorted (map fst (by_l ls bs))"
    and "mset (by_l ls bs) = mset bs"
    and "filter (\<lambda>b. fst b = l) (by_l ls bs) = filter (\<lambda>b. fst b = l) bs"
proof -
  show "sorted (map fst (by_l ls bs))" using assms(1) by (rule sorted_by_l)
  have "filter (\<lambda>b. fst b \<in> set ls) bs = bs" using assms(3) by (simp add: filter_id_conv)
  then show "mset (by_l ls bs) = mset bs" using mset_by_l [OF assms(2), of bs] by simp
  show "filter (\<lambda>b. fst b = l) (by_l ls bs) = filter (\<lambda>b. fst b = l) bs"
  proof (cases "l \<in> set ls")
    case True
    then show ?thesis using assms(2) by (simp add: filter_by_l_in)
  next
    case False
    then have "filter (\<lambda>b. fst b = l) bs = []" using assms(3) by (auto simp: filter_empty_conv)
    then show ?thesis using False by (simp add: filter_by_l_notin)
  qed
qed

lemma upto_0_7: "[0 .. int MAXL - 1] = [0, 1, 2, 3, 4, 5, 6, 7]"
  by (simp add: MAXL_def upto.simps)

lemma upto_m1_7: "[- 1 .. int MAXL - 1] = [- 1, 0, 1, 2, 3, 4, 5, 6, 7]"
  by (simp add: MAXL_def upto.simps)

lemma MAPSPDF_range: "MAPSPDF k = Some l \<Longrightarrow> 0 \<le> l \<and> l \<le> 7"
  by (auto simp: MAPSPDF_def split: if_splits)

lemma append_at_fst: "append_at ba i row = Inr ba' \<Longrightarrow> map fst ba' = map fst ba"
  by (auto simp: append_at_def py_index_def map_update list_update_same_conv
      split: if_splits option.splits)

lemma parse_step_cases:
  assumes "parse_step flt st line = Inr st'"
  shows "st' = st
       \<or> st' = (fst st @ [(0, []), (1, [])], Some ''SP'')
       \<or> (\<exists>k l. MAPSPDF k = Some l \<and> st' = (fst st @ [(l, [])], Some k))
       \<or> (map fst (fst st') = map fst (fst st) \<and> snd st' = snd st)"
  using assms
  by (auto simp: parse_step_def Let_def dest!: append_at_fst
      split: if_splits sum.splits option.splits)

lemma parse_step_fst:
  assumes "parse_step flt st line = Inr st'"
  shows "set (map fst (fst st')) \<subseteq> set (map fst (fst st)) \<union> {0 .. 7}"
proof -
  from parse_step_cases [OF assms] consider
      "st' = st"
    | "st' = (fst st @ [(0, []), (1, [])], Some ''SP'')"
    | k l where "MAPSPDF k = Some l" "st' = (fst st @ [(l, [])], Some k)"
    | "map fst (fst st') = map fst (fst st)"
    by blast
  then show ?thesis
  proof cases
    case 1
    then show ?thesis by blast
  next
    case 2
    then show ?thesis by (simp del: set_map) 
  next
    case 3
    then show ?thesis using MAPSPDF_range [of k l] by (simp del: set_map)
  next
    case 4
    then show ?thesis by (simp del: set_map)
  qed
qed

lemma parse_loop_fst:
  "parse_loop flt st lines = Inr st' \<Longrightarrow> set (map fst (fst st')) \<subseteq> set (map fst (fst st)) \<union> {0 .. 7}"
proof (induction lines arbitrary: st)
  case Nil
  then show ?case by auto
next
  case (Cons line lines)
  then obtain st1 where s1: "parse_step flt st line = Inr st1" and s2: "parse_loop flt st1 lines = Inr st'"
    by (auto split: sum.splits)
  from Cons.IH [OF s2] parse_step_fst [OF s1] show ?case by blast
qed

lemma basis_add_of_range:
  assumes "basis_add_of flt lines = Inr ba"
  shows "\<forall>b\<in>set ba. fst b \<in> set [0 .. int MAXL - 1]"
proof -
  from assms obtain st where "parse_loop flt ([], None) lines = Inr st" "ba = fst st"
    by (auto simp: basis_add_of_def split: sum.splits)
  with parse_loop_fst [of flt "([], None)" lines st] show ?thesis
    by (auto simp: MAXL_def)
qed

text \<open>
  Claim C4. Whenever \<open>parse\<close> returns a list of shells, the list is in ascending order of
  the angular momentum \<open>l\<close> of its shells (the first component of a shell), it holds exactly
  the shells built from the input (none dropped, none added), and for every \<open>l\<close> the shells
  with that \<open>l\<close> come in their input order.
\<close>

theorem parse_sorted_stable:
  assumes "parse flt std text symb = Inr bs"
  shows "sorted (map fst bs) \<and>
         (\<exists>basis_add. basis_before_sort flt std text symb = Inr basis_add \<and>
            mset bs = mset basis_add \<and>
            (\<forall>l. filter (\<lambda>b. fst b = l) bs = filter (\<lambda>b. fst b = l) basis_add))"
proof -
  from assms obtain seg ba where seg: "segment_of std text symb = Inr seg"
    and ba: "basis_add_of flt (bastxt_of seg) = Inr ba"
    and bs: "bs = by_l [0 .. int MAXL - 1] ba"
    by (auto simp: parse_def priv_parse_def split: sum.splits)
  have r: "\<forall>b\<in>set ba. fst b \<in> set [0 .. int MAXL - 1]" using ba by (rule basis_add_of_range)
  have s: "sorted [0 .. int MAXL - 1]" and d: "distinct [0 .. int MAXL - 1]" by simp_all
  have "basis_before_sort flt std text symb = Inr ba"
    using seg ba by (simp add: basis_before_sort_def)
  then show ?thesis
    using by_l_stable_sort [OF s d r] bs by blast
qed

theorem parse_sorted_stable_witness:
  "parse fix_flt id ''O P\<newline>1.0 2.0\<newline>O S\<newline>3.0 4.0\<newline>O P\<newline>5 6'' None
     = Inr [(0, [[3000000000, 4000000000]]), (1, [[1000000000, 2000000000]]),
            (1, [[5000000000, 6000000000]])]
   \<and> (sorted (map fst [(0 :: int, [[3000000000, 4000000000]]), (1, [[1000000000, 2000000000 :: int]]),
            (1, [[5000000000, 6000000000]])])
      \<and> (\<exists>basis_add.
            basis_before_sort fix_flt id
              ''O P\<newline>1.0 2.0\<newline>O S\<newline>3.0 4.0\<newline>O P\<newline>5 6'' None = Inr basis_add
            \<and> mset [(0, [[3000000000, 4000000000]]), (1, [[1000000000, 2000000000]]),
                     (1, [[5000000000, 6000000000]])] = mset basis_add
            \<and> (\<forall>l. filter (\<lambda>b. fst b = l)
                      [(0, [[3000000000, 4000000000]]), (1, [[1000000000, 2000000000]]),
                       (1, [[5000000000, 6000000000]])]
                   = filter (\<lambda>b. fst b = l) basis_add)))"
proof -
  have h: "parse fix_flt id ''O P\<newline>1.0 2.0\<newline>O S\<newline>3.0 4.0\<newline>O P\<newline>5 6'' None
     = Inr [(0, [[3000000000, 4000000000]]), (1, [[1000000000, 2000000000]]),
            (1, [[5000000000, 6000000000]])]"
    by code_simp
  from h parse_sorted_stable [OF h] show ?thesis by (rule conjI)
qed

lemma append_slot_fst: "append_slot ea l toks flt = Inr ea' \<Longrightarrow> map fst ea' = map fst ea"
proof -
  assume a: "append_slot ea l toks flt = Inr ea'"
  then have ne: "ea \<noteq> []" by (auto simp: append_slot_def split: if_splits)
  from a obtain x where "ea' = butlast ea @ [(fst (last ea), x)]"
    by (auto simp: append_slot_def Let_def split: if_splits sum.splits option.splits)
  then have "map fst ea' = map fst (butlast ea @ [last ea])" by simp
  then show ?thesis using ne by simp
qed

lemma ecp_step_cases:
  assumes "ecp_step flt st line = Inr st'"
  shows "(fst st' = fst st)
       \<or> fst st' = fst st @ [(- 1, [[], [], [], []])]
       \<or> (\<exists>k l. MAPSPDF k = Some l \<and> fst st' = fst st @ [(l, [[], [], [], []])])
       \<or> (map fst (fst st') = map fst (fst st))"
  using assms
  by (auto simp: ecp_step_def Let_def dest!: append_slot_fst
      split: if_splits sum.splits option.splits list.splits)

lemma ecp_step_fst:
  assumes "ecp_step flt st line = Inr st'"
  shows "set (map fst (fst st')) \<subseteq> set (map fst (fst st)) \<union> {- 1 .. 7}"
proof -
  from ecp_step_cases [OF assms] consider
      "fst st' = fst st"
    | "fst st' = fst st @ [(- 1, [[], [], [], []])]"
    | k l where "MAPSPDF k = Some l" "fst st' = fst st @ [(l, [[], [], [], []])]"
    | "map fst (fst st') = map fst (fst st)"
    by blast
  then show ?thesis
  proof cases
    case 1
    then show ?thesis by (simp del: set_map)
  next
    case 2
    then show ?thesis by (simp del: set_map)
  next
    case 3
    then show ?thesis using MAPSPDF_range [of k l] by (simp del: set_map)
  next
    case 4
    then show ?thesis by (simp del: set_map)
  qed
qed

lemma ecp_loop_fst:
  "ecp_loop flt st lines = Inr st' \<Longrightarrow> set (map fst (fst st')) \<subseteq> set (map fst (fst st)) \<union> {- 1 .. 7}"
proof (induction lines arbitrary: st)
  case Nil
  then show ?case by auto
next
  case (Cons line lines)
  then obtain st1 where s1: "ecp_step flt st line = Inr st1" and s2: "ecp_loop flt st1 lines = Inr st'"
    by (auto split: sum.splits)
  from Cons.IH [OF s2] ecp_step_fst [OF s1] show ?case by blast
qed

text \<open>
  Claim C6. Whenever \<open>parse_ecp\<close> returns an Ecp pair, its block sequence is in ascending
  order of \<open>l\<close>, so the \<open>l = -1\<close> (UL) blocks come first and the others follow in
  ascending \<open>l\<close>; it holds exactly the blocks built from the input, and the blocks that
  share an \<open>l\<close> keep their input order.
\<close>

theorem parse_ecp_sorted_stable:
  assumes "parse_ecp flt std text symb = Inr (Some (nelec, blocks))"
  shows "sorted (map fst blocks) \<and>
         (\<exists>ecp_add. ecp_before_sort flt std text symb = Inr ecp_add \<and>
            mset blocks = mset ecp_add \<and>
            (\<forall>l. filter (\<lambda>b. fst b = l) blocks = filter (\<lambda>b. fst b = l) ecp_add) \<and>
            blocks = filter (\<lambda>b. fst b = - 1) ecp_add @ filter (\<lambda>b. fst b \<noteq> - 1) blocks)"
proof -
  from assms obtain seg st where seg: "ecp_segment std text symb = Inr seg"
    and st: "ecp_loop flt ([], None) (ecptxt_of seg) = Inr st"
    and bs: "blocks = by_l [- 1 .. int MAXL - 1] (fst st)"
    by (auto simp: parse_ecp_def priv_parse_ecp_def split: sum.splits option.splits)
  have r: "\<forall>b\<in>set (fst st). fst b \<in> set [- 1 .. int MAXL - 1]"
    using ecp_loop_fst [OF st] by (auto simp: MAXL_def)
  have s: "sorted [- 1 .. int MAXL - 1]" and d: "distinct [- 1 .. int MAXL - 1]" by simp_all
  have e: "ecp_before_sort flt std text symb = Inr (fst st)"
    using seg st by (simp add: ecp_before_sort_def)
  have "blocks = filter (\<lambda>b. fst b = - 1) (fst st) @ by_l [0, 1, 2, 3, 4, 5, 6, 7] (fst st)"
    using bs by (simp add: upto_m1_7)
  moreover have "filter (\<lambda>b. fst b \<noteq> - 1) (filter (\<lambda>b. fst b = - 1) (fst st)) = []"
    by (simp add: filter_empty_conv)
  moreover have "filter (\<lambda>b. fst b \<noteq> - 1) (by_l [0, 1, 2, 3, 4, 5, 6, 7] (fst st))
      = by_l [0, 1, 2, 3, 4, 5, 6, 7] (fst st)"
    by (auto simp: filter_id_conv set_by_l simp del: by_l_Cons)
  ultimately have "blocks = filter (\<lambda>b. fst b = - 1) (fst st) @ filter (\<lambda>b. fst b \<noteq> - 1) blocks"
    by simp
  then show ?thesis
    using by_l_stable_sort [OF s d r] bs e by blast
qed

theorem parse_ecp_sorted_stable_witness:
  "parse_ecp fix_flt id
      ''NA NELEC 10\<newline>NA S\<newline>0 1.0 5.0\<newline>NA UL\<newline>1 0.5 10.0\<newline>NA S\<newline>2 3 4'' None
     = Inr (Some (10, [(- 1, [[], [[500000000, 10000000000]], [], []]),
                       (0, [[[1000000000, 5000000000]], [], [], []]),
                       (0, [[], [], [[3000000000, 4000000000]], []])]))
   \<and> (sorted (map fst [(- 1 :: int, [[], [[500000000, 10000000000 :: int]], [], []]),
                       (0, [[[1000000000, 5000000000]], [], [], []]),
                       (0, [[], [], [[3000000000, 4000000000]], []])])
      \<and> (\<exists>ecp_add.
            ecp_before_sort fix_flt id
              ''NA NELEC 10\<newline>NA S\<newline>0 1.0 5.0\<newline>NA UL\<newline>1 0.5 10.0\<newline>NA S\<newline>2 3 4'' None
              = Inr ecp_add
            \<and> mset [(- 1, [[], [[500000000, 10000000000]], [], []]),
                     (0, [[[1000000000, 5000000000]], [], [], []]),
                     (0, [[], [], [[3000000000, 4000000000]], []])] = mset ecp_add
            \<and> (\<forall>l. filter (\<lambda>b. fst b = l)
                      [(- 1, [[], [[500000000, 10000000000]], [], []]),
                       (0, [[[1000000000, 5000000000]], [], [], []]),
                       (0, [[], [], [[3000000000, 4000000000]], []])]
                   = filter (\<lambda>b. fst b = l) ecp_add)
            \<and> [(- 1, [[], [[500000000, 10000000000]], [], []]),
                (0, [[[1000000000, 5000000000]], [], [], []]),
                (0, [[], [], [[3000000000, 4000000000]], []])]
              = filter (\<lambda>b. fst b = - 1) ecp_add
                @ filter (\<lambda>b. fst b \<noteq> - 1)
                    [(- 1, [[], [[500000000, 10000000000]], [], []]),
                     (0, [[[1000000000, 5000000000]], [], [], []]),
                     (0, [[], [], [[3000000000, 4000000000]], []])]))"
proof -
  have h: "parse_ecp fix_flt id
      ''NA NELEC 10\<newline>NA S\<newline>0 1.0 5.0\<newline>NA UL\<newline>1 0.5 10.0\<newline>NA S\<newline>2 3 4'' None
     = Inr (Some (10, [(- 1, [[], [[500000000, 10000000000]], [], []]),
                       (0, [[[1000000000, 5000000000]], [], [], []]),
                       (0, [[], [], [[3000000000, 4000000000]], []])]))"
    by code_simp
  from h parse_ecp_sorted_stable [OF h] show ?thesis by (rule conjI)
qed

section \<open>The ECP example\<close>

lemma example_ecptxt:
  "ecptxt_of (splitlines ''NA NELEC 10\<newline>NA UL\<newline>1 0.5 10.0\<newline>NA S\<newline>0 1.0 5.0'')
     = [''NA NELEC 10'', ''NA UL'', ''1 0.5 10.0'', ''NA S'', ''0 1.0 5.0'']"
  by code_simp

lemma example_chars:
  "isalpha CHR ''N''" "\<not> isalpha CHR ''1''" "\<not> isalpha CHR ''0''"
  by code_simp+

lemma example_strip:
  "strip ''NA NELEC 10'' = ''NA NELEC 10''" "strip ''NA UL'' = ''NA UL''"
  "strip ''NA S'' = ''NA S''" "strip ''1 0.5 10.0'' = ''1 0.5 10.0''"
  "strip ''0 1.0 5.0'' = ''0 1.0 5.0''"
  by code_simp+

lemma example_split:
  "py_split ''NA NELEC 10'' = [''NA'', ''NELEC'', ''10'']" "py_split ''NA UL'' = [''NA'', ''UL'']"
  "py_split ''NA S'' = [''NA'', ''S'']"
  "py_split (replace_D ''1 0.5 10.0'') = [''1'', ''0.5'', ''10.0'']"
  "py_split (replace_D ''0 1.0 5.0'') = [''0'', ''1.0'', ''5.0'']"
  by code_simp+

lemma example_ints:
  "int_of_str ''10'' = Some 10" "int_of_str ''1'' = Some 1" "int_of_str ''0'' = Some 0"
  "MAPSPDF ''S'' = Some 0"
  by code_simp+

lemmas example_facts = example_chars example_strip example_split example_ints

lemma example_step1: "ecp_step flt (ea, n) ''NA NELEC 10'' = Inr (ea, Some 10)"
  by (simp add: ecp_step_def Let_def get_def py_index_def startswith_def example_facts)

lemma example_step2: "ecp_step flt (ea, n) ''NA UL'' = Inr (ea @ [(- 1, [[], [], [], []])], n)"
  by (simp add: ecp_step_def Let_def get_def py_index_def startswith_def example_facts)

lemma example_step4: "ecp_step flt (ea, n) ''NA S'' = Inr (ea @ [(0, [[], [], [], []])], n)"
  by (simp add: ecp_step_def Let_def get_def py_index_def startswith_def example_facts)

lemma example_step3:
  assumes "flt ''0.5'' = Some a" "flt ''10.0'' = Some b"
  shows "ecp_step flt (ea @ [(l, [[], [], [], []])], n) ''1 0.5 10.0''
         = Inr (ea @ [(l, [[], [[a, b]], [], []])], n)"
  using assms by (simp add: ecp_step_def append_slot_def py_index_def Let_def startswith_def example_facts)

lemma example_step5:
  assumes "flt ''1.0'' = Some c" "flt ''5.0'' = Some d"
  shows "ecp_step flt (ea @ [(l, [[], [], [], []])], n) ''0 1.0 5.0''
         = Inr (ea @ [(l, [[[c, d]], [], [], []])], n)"
  using assms by (simp add: ecp_step_def append_slot_def py_index_def Let_def startswith_def example_facts)

text \<open>
  Claim C7. \<open>parse_ecp\<close> without an element symbol, on the five lines
  \<open>NA NELEC 10\<close>, \<open>NA UL\<close>, \<open>1 0.5 10.0\<close>, \<open>NA S\<close>, \<open>0 1.0 5.0\<close>, returns the pair of
  10 and the blocks \<open>[-1, [[], [[0.5, 10.0]], [], []]]\<close> and \<open>[0, [[[1.0, 5.0]], [], [], []]]\<close>:
  the leading power digit of a data line selects the slot of the current block. The numbers
  \<open>a\<close>, \<open>b\<close>, \<open>c\<close>, \<open>d\<close> are the floats that \<open>float\<close> reads from the four literals.
\<close>

theorem parse_ecp_example:
  assumes "flt ''0.5'' = Some a" "flt ''10.0'' = Some b" "flt ''1.0'' = Some c" "flt ''5.0'' = Some d"
  shows "parse_ecp flt std ''NA NELEC 10\<newline>NA UL\<newline>1 0.5 10.0\<newline>NA S\<newline>0 1.0 5.0'' None
         = Inr (Some (10, [(- 1, [[], [[a, b]], [], []]), (0, [[[c, d]], [], [], []])]))"
proof -
  have "ecp_loop flt ([], None) [''NA NELEC 10'', ''NA UL'', ''1 0.5 10.0'', ''NA S'', ''0 1.0 5.0'']
        = Inr ([(- 1, [[], [[a, b]], [], []]), (0, [[[c, d]], [], [], []])], Some 10)"
    using example_step3 [OF assms(1,2), of "[]" "- 1" "Some 10"]
      example_step5 [OF assms(3,4), of "[(- 1, [[], [[a, b]], [], []])]" 0 "Some 10"]
    by (simp add: example_step1 example_step2 example_step4)
  then show ?thesis
    by (simp add: parse_ecp_def ecp_segment_def example_ecptxt priv_parse_ecp_def upto_m1_7)
qed

theorem parse_ecp_example_witness:
  "parse_ecp fix_flt id ''NA NELEC 10\<newline>NA UL\<newline>1 0.5 10.0\<newline>NA S\<newline>0 1.0 5.0'' None
     = Inr (Some (10, [(- 1, [[], [[500000000, 10000000000]], [], []]),
                       (0, [[[1000000000, 5000000000]], [], [], []])]))"
proof -
  have "fix_flt ''0.5'' = Some 500000000" "fix_flt ''10.0'' = Some 10000000000"
    "fix_flt ''1.0'' = Some 1000000000" "fix_flt ''5.0'' = Some 5000000000"
    by code_simp+
  then show ?thesis by (rule parse_ecp_example)
qed


section \<open>Stripping and upper-casing\<close>

lemma isspace_upper_char [simp]: "isspace (upper_char c) = isspace c"
  by (auto simp: isspace_def upper_char_def Let_def)

lemma upper_char_hash [simp]: "upper_char c = CHR ''#'' \<longleftrightarrow> c = CHR ''#''"
proof
  assume a: "upper_char c = CHR ''#''"
  show "c = CHR ''#''"
  proof (rule ccontr)
    assume n: "c \<noteq> CHR ''#''"
    with a have r: "97 \<le> (of_char c :: nat)" "(of_char c :: nat) \<le> 122"
      and e: "char_of ((of_char c :: nat) - 32) = CHR ''#''"
      by (auto simp: upper_char_def Let_def split: if_splits)
    from e have "(of_char (char_of ((of_char c :: nat) - 32)) :: nat) = of_char CHR ''#''" by simp
    with r show False by simp
  qed
next
  assume "c = CHR ''#''"
  then show "upper_char c = CHR ''#''" by (simp add: upper_char_def)
qed

lemma strip_fixed:
  assumes "s = [] \<or> (\<not> isspace (hd s) \<and> \<not> isspace (last s))"
  shows "strip s = s"
proof (cases "s = []")
  case True
  then show ?thesis by (simp add: strip_def)
next
  case False
  with assms have h: "\<not> isspace (hd s)" and l: "\<not> isspace (last s)" by simp_all
  from False h have 1: "dropWhile isspace s = s" by (cases s) simp_all
  from False obtain ys y where s: "s = ys @ [y]" by (metis rev_exhaust)
  with l have 2: "dropWhile isspace (rev s) = rev s" by simp
  show ?thesis by (simp add: strip_def 1 2)
qed

lemma strip_prefix_suffix: "\<exists>u w. dropWhile isspace s = strip s @ w \<and> s = u @ strip s @ w"
proof -
  let ?t = "dropWhile isspace s"
  have "rev (dropWhile isspace (rev ?t)) @ rev (takeWhile isspace (rev ?t))
      = rev (takeWhile isspace (rev ?t) @ dropWhile isspace (rev ?t))"
    by (simp only: rev_append)
  also have "\<dots> = rev (rev ?t)" by (simp only: takeWhile_dropWhile_id)
  finally have t: "?t = strip s @ rev (takeWhile isspace (rev ?t))" by (simp add: strip_def)
  have "s = takeWhile isspace s @ ?t" by simp
  with t show ?thesis by metis
qed

lemma strip_ends: "strip s = [] \<or> (\<not> isspace (hd (strip s)) \<and> \<not> isspace (last (strip s)))"
proof (cases "strip s = []")
  case True
  then show ?thesis by simp
next
  case False
  obtain u w where t: "dropWhile isspace s = strip s @ w" using strip_prefix_suffix by blast
  with False have "hd (strip s) = hd (dropWhile isspace s)" by simp
  moreover have "dropWhile isspace s \<noteq> []" using t False by simp
  ultimately have h: "\<not> isspace (hd (strip s))" by (simp add: hd_dropWhile)
  have "rev (strip s) = dropWhile isspace (rev (dropWhile isspace s))" by (simp add: strip_def)
  moreover have "rev (strip s) \<noteq> []" using False by simp
  ultimately have "\<not> isspace (hd (rev (strip s)))" by (simp add: hd_dropWhile)
  then have "\<not> isspace (last (strip s))" using False by (simp add: hd_rev)
  with h show ?thesis by simp
qed

lemma strip_strip [simp]: "strip (strip s) = strip s"
  using strip_ends by (rule strip_fixed)

lemma strip_upper: "strip (upper s) = upper (strip s)"
  by (simp add: strip_def upper_def dropWhile_map rev_map comp_def)

lemma set_strip: "set (strip s) \<subseteq> set s"
  using strip_prefix_suffix [of s] by (metis Un_upper1 Un_upper2 set_append subset_trans)

lemma strip_clean_line [simp]: "strip (clean_line dat) = clean_line dat"
  by (simp add: clean_line_def strip_upper)

lemma hash_notin_clean_line: "CHR ''#'' \<notin> set (clean_line dat)"
proof -
  have "CHR ''#'' \<notin> set (before_hash dat)"
    by (auto simp: before_hash_def dest: set_takeWhileD)
  then have "CHR ''#'' \<notin> set (strip (before_hash dat))" using set_strip by blast
  moreover have "\<And>c. upper_char c = CHR ''#'' \<Longrightarrow> c = CHR ''#''" by simp
  ultimately show ?thesis unfolding clean_line_def upper_def by (metis (no_types) imageE list.set_map)
qed

lemma clean_not_comment:
  assumes "x = clean_line dat" "x \<noteq> []"
  shows "\<not> startswith x ''#''"
proof
  assume a: "startswith x ''#''"
  from assms(2) obtain c cs where x: "x = c # cs" by (cases x) auto
  with a have "c = CHR ''#''" by (simp add: startswith_def)
  with x have "CHR ''#'' \<in> set x" by simp
  with assms(1) hash_notin_clean_line show False by blast
qed

lemma bastxt_line:
  assumes "x \<in> set (bastxt_of seg)"
  shows "strip x = x \<and> x \<noteq> [] \<and> \<not> startswith x ''#''"
proof -
  from assms obtain dat where "x = clean_line dat" "x \<noteq> []" by (auto simp: bastxt_of_def)
  then show ?thesis using clean_not_comment by simp
qed

lemma ecptxt_line:
  assumes "x \<in> set (ecptxt_of seg)"
  shows "strip x = x \<and> x \<noteq> [] \<and> \<not> startswith x ''#''"
proof -
  from assms obtain dat where "x = clean_line dat" "x \<noteq> []" by (auto simp: ecptxt_of_def)
  then show ?thesis using clean_not_comment by simp
qed

lemma floats_result:
  "floats flt toks = (if \<forall>t\<in>set toks. flt t \<noteq> None then Inr (map (\<lambda>t. the (flt t)) toks) else Inl ValueError)"
  by (induction toks) (auto split: option.splits)


section \<open>A data line before any header\<close>

lemma parse_step_data_unbound:
  assumes "strip x = x" "x \<noteq> []" "\<not> startswith x ''#''" "\<not> isalpha (hd x)"
  shows "parse_step flt (ba, None) x
         = Inl (if \<forall>t\<in>set (py_split (replace_D x)). flt t \<noteq> None then UnboundLocalError else ValueError)"
  using assms by (simp add: parse_step_def Let_def floats_result)

text \<open>
  Claim C3, as the code has it. When the first line that \<open>parse\<close> keeps (after comments,
  blank lines and END/BASIS lines are dropped) is a data line, no header has bound \<open>key\<close>:
  \<open>parse\<close> raises UnboundLocalError if every token of the line converts to a float, and
  ValueError otherwise. It returns no Basis value, and no error of another kind.
\<close>

theorem data_line_before_header:
  assumes "segment_of std text symb = Inr seg"
    and "bastxt_of seg = x # xs"
    and "\<not> isalpha (hd x)"
  shows "parse flt std text symb
         = Inl (if \<forall>t\<in>set (py_split (replace_D x)). flt t \<noteq> None then UnboundLocalError else ValueError)"
proof -
  have "x \<in> set (bastxt_of seg)" using assms(2) by simp
  then have "strip x = x \<and> x \<noteq> [] \<and> \<not> startswith x ''#''" by (rule bastxt_line)
  then have "parse_step flt ([], None) x
         = Inl (if \<forall>t\<in>set (py_split (replace_D x)). flt t \<noteq> None then UnboundLocalError else ValueError)"
    using assms(3) by (simp add: parse_step_data_unbound)
  then show ?thesis
    using assms(1,2) by (simp add: parse_def priv_parse_def basis_add_of_def)
qed

theorem data_line_before_header_witness:
  "segment_of id ''1.0 2.0\<newline>O S\<newline>1.0 2.0'' None = Inr ''1.0 2.0\<newline>O S\<newline>1.0 2.0''
   \<and> bastxt_of ''1.0 2.0\<newline>O S\<newline>1.0 2.0'' = [''1.0 2.0'', ''O S'', ''1.0 2.0'']
   \<and> \<not> isalpha (hd ''1.0 2.0'')
   \<and> parse fix_flt id ''1.0 2.0\<newline>O S\<newline>1.0 2.0'' None
       = Inl (if \<forall>t\<in>set (py_split (replace_D ''1.0 2.0'')). fix_flt t \<noteq> None
              then UnboundLocalError else ValueError)"
proof -
  have a: "segment_of id ''1.0 2.0\<newline>O S\<newline>1.0 2.0'' None = Inr ''1.0 2.0\<newline>O S\<newline>1.0 2.0''"
    by (simp add: segment_of_def)
  have b: "bastxt_of ''1.0 2.0\<newline>O S\<newline>1.0 2.0'' = [''1.0 2.0'', ''O S'', ''1.0 2.0'']"
    by code_simp
  have c: "\<not> isalpha (hd ''1.0 2.0'')" by code_simp
  from a b c data_line_before_header [OF a b c, of fix_flt] show ?thesis by blast
qed

text \<open>
  Claim C3 as stated asks for a descriptive parse error, not an unbound-reference fault.
  The fault is what the code raises.
\<close>

theorem data_line_before_header_counterexample:
  "parse fix_flt id ''1.0 2.0\<newline>O S\<newline>1.0 2.0'' None = Inl UnboundLocalError"
  by code_simp

section \<open>An ECP text without NELEC\<close>

lemma ecp_step_nelec:
  assumes "ecp_step flt st line = Inr st'" "\<not> is_nelec_header line"
  shows "snd st' = snd st"
  using assms
  by (auto simp: ecp_step_def is_nelec_header_def Let_def
      split: if_splits sum.splits option.splits list.splits)

lemma ecp_loop_nelec:
  "ecp_loop flt st lines = Inr st' \<Longrightarrow> \<forall>x\<in>set lines. \<not> is_nelec_header x \<Longrightarrow> snd st' = snd st"
proof (induction lines arbitrary: st)
  case Nil
  then show ?case by simp
next
  case (Cons line lines)
  then obtain st1 where s1: "ecp_step flt st line = Inr st1" and s2: "ecp_loop flt st1 lines = Inr st'"
    by (auto split: sum.splits)
  from Cons.prems(2) have "\<not> is_nelec_header line" "\<forall>x\<in>set lines. \<not> is_nelec_header x" by simp_all
  with Cons.IH [OF s2] ecp_step_nelec [OF s1] show ?case by simp
qed

text \<open>
  Claim C2, as the code has it. When none of the lines handed to \<open>_parse_ecp\<close> is a header
  with the key NELEC, \<open>parse_ecp\<close> never returns an Ecp pair: it returns \<open>None\<close>, unless
  one of the errors of the scan (KeyError, IndexError, ValueError, UnboundLocalError) is raised.
\<close>

theorem no_nelec_no_ecp:
  assumes "\<forall>x\<in>set (ecp_lines std text symb). \<not> is_nelec_header x"
  shows "parse_ecp flt std text symb = Inr None \<or> (\<exists>e. parse_ecp flt std text symb = Inl e)"
proof (cases "ecp_segment std text symb")
  case (Inl e)
  then show ?thesis by (simp add: parse_ecp_def)
next
  case (Inr seg)
  with assms have n: "\<forall>x\<in>set (ecptxt_of seg). \<not> is_nelec_header x" by (simp add: ecp_lines_def)
  show ?thesis
  proof (cases "ecp_loop flt ([], None) (ecptxt_of seg)")
    case (Inl e)
    with Inr show ?thesis by (simp add: parse_ecp_def priv_parse_ecp_def)
  next
    case st: (Inr st)
    from ecp_loop_nelec [OF st n] have "snd st = None" by simp
    with Inr st show ?thesis by (simp add: parse_ecp_def priv_parse_ecp_def)
  qed
qed

theorem no_nelec_no_ecp_witness:
  "filter is_nelec_header (ecp_lines id ''NA UL\<newline>1 0.5 10.0\<newline>NA S\<newline>0 1.0 5.0'' None) = []
   \<and> (parse_ecp fix_flt id ''NA UL\<newline>1 0.5 10.0\<newline>NA S\<newline>0 1.0 5.0'' None = Inr None
      \<or> (\<exists>e. parse_ecp fix_flt id ''NA UL\<newline>1 0.5 10.0\<newline>NA S\<newline>0 1.0 5.0'' None = Inl e))"
proof -
  have f: "filter is_nelec_header (ecp_lines id ''NA UL\<newline>1 0.5 10.0\<newline>NA S\<newline>0 1.0 5.0'' None) = []"
    by code_simp
  then have a: "\<forall>x\<in>set (ecp_lines id ''NA UL\<newline>1 0.5 10.0\<newline>NA S\<newline>0 1.0 5.0'' None). \<not> is_nelec_header x"
    by (simp add: filter_empty_conv)
  from f no_nelec_no_ecp [OF a, of fix_flt] show ?thesis by (rule conjI)
qed

text \<open>
  Claim C2 as stated asks for an explicit error. On a well-formed text without NELEC the
  code raises nothing and returns \<open>None\<close>.
\<close>

theorem no_nelec_counterexample:
  "parse_ecp fix_flt id ''NA UL\<newline>1 0.5 10.0\<newline>NA S\<newline>0 1.0 5.0'' None = Inr None"
  by code_simp


section \<open>A text without the basis-set delimiter\<close>

lemma re_split_from_no_match:
  "\<forall>i<length s. match_delim (drop i s) = None \<Longrightarrow> re_split_from cur s = [cur @ s]"
proof (induction s arbitrary: cur)
  case Nil
  then show ?case by simp
next
  case (Cons c cs)
  from Cons.prems have 0: "match_delim (c # cs) = None" by force
  have "\<forall>i<length cs. match_delim (drop i cs) = None"
  proof (intro allI impI)
    fix i assume "i < length cs"
    then have "Suc i < length (c # cs)" by simp
    with Cons.prems have "match_delim (drop (Suc i) (c # cs)) = None" by blast
    then show "match_delim (drop i cs) = None" by simp
  qed
  from Cons.IH [OF this] 0 show ?case by simp
qed

text \<open>
  Claim C8. With an element symbol, \<open>parse\<close> looks for the element only in the chunks after
  the first match of the delimiter \<open># BASIS SET ...\<close>: on a text where the delimiter matches
  nowhere it raises KeyError (basis not found), whatever the text holds. The witness is a
  text that is the basis block of the element asked for, which \<open>parse\<close> reads when no symbol
  is given.
\<close>

theorem no_delimiter_not_found:
  assumes "\<not> has_delimiter text"
  shows "parse flt std text (Some symb) = Inl KeyError"
proof -
  from assms have "\<forall>i<length text. match_delim (drop i text) = None"
    by (auto simp: has_delimiter_def list_ex_iff)
  then have "re_split text = [text]" by (simp add: re_split_def re_split_from_no_match)
  then show ?thesis by (simp add: parse_def segment_of_def priv_search_seg_def)
qed

theorem no_delimiter_not_found_witness:
  "\<not> has_delimiter ''O    S\<newline> 130.70 0.15433\<newline>''
   \<and> parse fix_flt id ''O    S\<newline> 130.70 0.15433\<newline>'' (Some ''O'') = Inl KeyError
   \<and> parse fix_flt id ''O    S\<newline> 130.70 0.15433\<newline>'' None = Inr [(0, [[130700000000, 154330000]])]"
proof -
  have a: "\<not> has_delimiter ''O    S\<newline> 130.70 0.15433\<newline>''" by code_simp
  have b: "parse fix_flt id ''O    S\<newline> 130.70 0.15433\<newline>'' None = Inr [(0, [[130700000000, 154330000]])]"
    by code_simp
  from a no_delimiter_not_found [OF a, of fix_flt id "''O''"] b show ?thesis by blast
qed

section \<open>The symbol on the last line of an ECP text\<close>

lemma last_index_no_match:
  "\<forall>x\<in>set pre. \<not> first_token_is symb x \<Longrightarrow>
     last_index symb (enumerate n (pre @ rest)) i
       = last_index symb (enumerate (n + length pre) rest) (if pre = [] then i else Some (n + length pre - 1))"
proof (induction pre arbitrary: n i)
  case Nil
  then show ?case by simp
next
  case (Cons x pre)
  then have "\<not> first_token_is symb x" "\<forall>x\<in>set pre. \<not> first_token_is symb x" by simp_all
  with Cons.IH [of "Suc n" "Some n"] show ?case by (cases pre) simp_all
qed

lemma last_index_last_line:
  assumes "\<forall>x\<in>set pre. \<not> first_token_is symb x"
  shows "last_index symb (enumerate 0 (pre @ [m])) None = Some (length pre)"
  using last_index_no_match [OF assms, of 0 "[m]" None] by (cases pre) simp_all

lemma last_index_first_match:
  assumes "\<forall>x\<in>set pre. \<not> first_token_is symb x" "first_token_is symb m"
  shows "last_index symb (enumerate 0 (pre @ m # rest)) None = Some (length pre)"
  using last_index_no_match [OF assms(1), of 0 "m # rest" None] assms(2) by simp

text \<open>
  Claim C10. When the element symbol first appears as the first token of the last line of
  the text, the loop index of \<open>parse_ecp\<close> stops at the last line, the test
  \<open>i+1 == len(raw_data)\<close> holds and \<open>parse_ecp\<close> raises KeyError (ECP not found), although
  the symbol is present.
\<close>

theorem symbol_on_last_line_not_found:
  assumes "splitlines text = pre @ [m]"
    and "\<forall>x\<in>set pre. \<not> first_token_is (std symb) x"
    and "first_token_is (std symb) m"
  shows "parse_ecp flt std text (Some symb) = Inl KeyError"
  using assms(1) last_index_last_line [OF assms(2), of m]
  by (simp add: parse_ecp_def ecp_segment_def Let_def)

theorem symbol_on_last_line_not_found_witness:
  "splitlines ''K nelec 10\<newline>K ul\<newline>Na nelec 10'' = [''K nelec 10'', ''K ul''] @ [''Na nelec 10'']
   \<and> filter (first_token_is (id ''Na'')) [''K nelec 10'', ''K ul''] = []
   \<and> first_token_is (id ''Na'') ''Na nelec 10''
   \<and> parse_ecp fix_flt id ''K nelec 10\<newline>K ul\<newline>Na nelec 10'' (Some ''Na'') = Inl KeyError"
proof -
  have a: "splitlines ''K nelec 10\<newline>K ul\<newline>Na nelec 10'' = [''K nelec 10'', ''K ul''] @ [''Na nelec 10'']"
    by code_simp
  have f: "filter (first_token_is (id ''Na'')) [''K nelec 10'', ''K ul''] = []" by code_simp
  then have b: "\<forall>x\<in>set [''K nelec 10'', ''K ul'']. \<not> first_token_is (id ''Na'') x"
    by (simp only: filter_empty_conv) 
  have c: "first_token_is (id ''Na'') ''Na nelec 10''" by code_simp
  from a f c symbol_on_last_line_not_found [where std = id and symb = "''Na''" and flt = fix_flt, OF a b c]
  show ?thesis by blast
qed


section \<open>A blank line in an ECP segment\<close>

lemma py_split1_eq:
  "py_split1 s =
     (if dropWhile isspace s = [] then []
      else takeWhile (\<lambda>c. \<not> isspace c) (dropWhile isspace s)
           # (if dropWhile isspace (dropWhile (\<lambda>c. \<not> isspace c) (dropWhile isspace s)) = [] then []
              else [dropWhile isspace (dropWhile (\<lambda>c. \<not> isspace c) (dropWhile isspace s))]))"
  unfolding py_split1_def Let_def by (simp only: if_distrib [of "\<lambda>x. _ # x", symmetric] cong: if_cong)

lemma first_token_is_iff:
  "first_token_is symb dat \<longleftrightarrow>
     dropWhile isspace dat \<noteq> [] \<and> takeWhile (\<lambda>c. \<not> isspace c) (dropWhile isspace dat) = symb"
proof (cases "dropWhile isspace dat = []")
  case True
  then show ?thesis by (simp only: first_token_is_def py_split1_eq if_True list.case simp_thms)
next
  case False
  then show ?thesis by (simp only: first_token_is_def py_split1_eq if_False list.case simp_thms)
qed

lemma strip_blank_tail: "\<exists>w. dropWhile isspace s = strip s @ w \<and> (\<forall>c\<in>set w. isspace c)"
proof -
  let ?t = "dropWhile isspace s"
  let ?w = "rev (takeWhile isspace (rev ?t))"
  have "rev (dropWhile isspace (rev ?t)) @ ?w
      = rev (takeWhile isspace (rev ?t) @ dropWhile isspace (rev ?t))"
    by (simp only: rev_append)
  also have "\<dots> = rev (rev ?t)" by (simp only: takeWhile_dropWhile_id)
  finally have "?t = strip s @ ?w" by (simp add: strip_def)
  moreover have "\<forall>c\<in>set ?w. isspace c" by (auto dest: set_takeWhileD)
  ultimately show ?thesis by blast
qed

lemma takeWhile_append_stop: "\<forall>c\<in>set w. \<not> P c \<Longrightarrow> takeWhile P (xs @ w) = takeWhile P xs"
  by (induction xs) (auto simp: takeWhile_eq_Nil_iff)

lemma first_token_strip:
  "takeWhile (\<lambda>c. \<not> isspace c) (dropWhile isspace s) = takeWhile (\<lambda>c. \<not> isspace c) (strip s)"
proof -
  obtain w where "dropWhile isspace s = strip s @ w" "\<forall>c\<in>set w. isspace c"
    using strip_blank_tail by blast
  then show ?thesis by (simp add: takeWhile_append_stop)
qed

lemma strip_eq_Nil_iff: "strip s = [] \<longleftrightarrow> dropWhile isspace s = []"
proof
  assume a: "strip s = []"
  obtain w where w: "dropWhile isspace s = strip s @ w" "\<forall>c\<in>set w. isspace c"
    using strip_blank_tail by blast
  show "dropWhile isspace s = []"
  proof (rule ccontr)
    assume n: "dropWhile isspace s \<noteq> []"
    then have "\<not> isspace (hd (dropWhile isspace s))" by (rule hd_dropWhile)
    moreover from a w n have "hd (dropWhile isspace s) \<in> set w" by (cases w) auto
    ultimately show False using w(2) by blast
  qed
next
  assume a: "dropWhile isspace s = []"
  show "strip s = []" unfolding strip_def a by simp
qed

lemma dropWhile_strip: "dropWhile isspace (strip s) = strip s"
  using strip_ends [of s] by (cases "strip s") auto

lemma first_token_upper_strip:
  assumes "first_token_is symb m"
  shows "upper (strip m) \<noteq> [] \<and> py_split1 (upper (strip m)) \<noteq> []
         \<and> hd (py_split1 (upper (strip m))) = upper symb"
proof -
  from assms have n: "dropWhile isspace m \<noteq> []"
    and t: "takeWhile (\<lambda>c. \<not> isspace c) (dropWhile isspace m) = symb"
    by (simp_all add: first_token_is_iff)
  from n have s: "strip m \<noteq> []" by (simp add: strip_eq_Nil_iff)
  let ?d = "upper (strip m)"
  have d: "dropWhile isspace ?d = ?d"
    by (simp add: upper_def dropWhile_map comp_def dropWhile_strip)
  have "takeWhile (\<lambda>c. \<not> isspace c) ?d = upper (takeWhile (\<lambda>c. \<not> isspace c) (strip m))"
    by (simp add: upper_def takeWhile_map comp_def)
  also have "\<dots> = upper symb" using t by (simp add: first_token_strip)
  finally have k: "takeWhile (\<lambda>c. \<not> isspace c) ?d = upper symb" .
  from s have ne: "?d \<noteq> []" by (simp add: upper_def)
  with d k show ?thesis by (simp add: py_split1_def Let_def)
qed

lemma first_token_continues:
  assumes "first_token_is symb m"
  shows "seg_continues symb m"
proof -
  from first_token_upper_strip [OF assms]
  have ne: "upper (strip m) \<noteq> []" and sp: "py_split1 (upper (strip m)) \<noteq> []"
    and h: "hd (py_split1 (upper (strip m))) = upper symb"
    by simp_all
  from sp obtain t ts where ts: "py_split1 (upper (strip m)) = t # ts"
    by (cases "py_split1 (upper (strip m))") auto
  with h have "t = upper symb" by simp
  with ts have "get (py_split1 (upper (strip m))) 0 = Inr (upper symb)"
    by (simp add: get_def py_index_def)
  with ne show ?thesis unfolding seg_continues_def Let_def by blast
qed

lemma seg_loop_continue:
  assumes "seg_continues symb x"
  shows "seg_loop symb (x # rest) seg = seg_loop symb rest (seg @ [upper (strip x)])"
proof -
  from assms obtain c cs where d: "upper (strip x) = c # cs"
    by (cases "upper (strip x)") (auto simp: seg_continues_def Let_def)
  with assms have "isalpha c \<longrightarrow> get (py_split1 (c # cs)) 0 = Inr (upper symb)"
    by (simp add: seg_continues_def Let_def)
  with d show ?thesis by (cases "isalpha c") (simp_all add: Let_def)
qed

lemma seg_loop_blank: "strip b = [] \<Longrightarrow> seg_loop symb (b # rest) seg = Inl IndexError"
  by (simp add: upper_def)

lemma seg_loop_reaches_blank:
  "\<forall>x\<in>set xs. seg_continues symb x \<Longrightarrow> strip b = [] \<Longrightarrow>
     seg_loop symb (xs @ b # post) seg = Inl IndexError"
proof (induction xs arbitrary: seg)
  case Nil
  then show ?case by (simp add: seg_loop_blank del: seg_loop.simps)
next
  case (Cons x xs)
  then have "seg_continues symb x" by simp
  from seg_loop_continue [OF this] Cons show ?case by (simp del: seg_loop.simps)
qed

text \<open>
  Claim C9, as the code has it. With an element symbol, the segment loop of \<open>parse_ecp\<close>
  reads \<open>dat[0]\<close> before it tests \<open>dat\<close>. It starts at the first line whose first token is
  the symbol and stops at the first line that starts with a letter and has another first
  token. When a blank or whitespace-only line comes after the first matching line and every
  line between the two is one that the loop appends, \<open>parse_ecp\<close> raises IndexError.
\<close>

theorem blank_line_in_segment:
  assumes "splitlines text = pre @ m # mid @ b # post"
    and "\<forall>x\<in>set pre. \<not> first_token_is (std symb) x"
    and "first_token_is (std symb) m"
    and "\<forall>x\<in>set mid. seg_continues (std symb) x"
    and "strip b = []"
  shows "parse_ecp flt std text (Some symb) = Inl IndexError"
proof -
  let ?raw = "pre @ m # mid @ b # post"
  have i: "last_index (std symb) (enumerate 0 ?raw) None = Some (length pre)"
    using assms(2,3) by (rule last_index_first_match)
  have "\<forall>x\<in>set (m # mid). seg_continues (std symb) x"
    using assms(3,4) by (simp add: first_token_continues)
  from seg_loop_reaches_blank [OF this assms(5), of post "[]"]
  have "seg_loop (std symb) (drop (length pre) ?raw) [] = Inl IndexError" by simp
  with i assms(1) show ?thesis
    by (simp add: parse_ecp_def ecp_segment_def Let_def del: seg_loop.simps)
qed

theorem blank_line_in_segment_witness:
  "splitlines ''K nelec 2\<newline>Na nelec 10\<newline>Na ul\<newline>  \<newline>1 0.5 10.0''
     = [''K nelec 2''] @ ''Na nelec 10'' # [''Na ul''] @ ''  '' # [''1 0.5 10.0'']
   \<and> filter (first_token_is (id ''Na'')) [''K nelec 2''] = []
   \<and> first_token_is (id ''Na'') ''Na nelec 10''
   \<and> list_all (seg_continues (id ''Na'')) [''Na ul'']
   \<and> strip ''  '' = []
   \<and> parse_ecp fix_flt id ''K nelec 2\<newline>Na nelec 10\<newline>Na ul\<newline>  \<newline>1 0.5 10.0'' (Some ''Na'')
       = Inl IndexError"
proof -
  have a: "splitlines ''K nelec 2\<newline>Na nelec 10\<newline>Na ul\<newline>  \<newline>1 0.5 10.0''
     = [''K nelec 2''] @ ''Na nelec 10'' # [''Na ul''] @ ''  '' # [''1 0.5 10.0'']"
    by code_simp
  have f: "filter (first_token_is (id ''Na'')) [''K nelec 2''] = []" by code_simp
  then have b: "\<forall>x\<in>set [''K nelec 2'']. \<not> first_token_is (id ''Na'') x"
    by (simp only: filter_empty_conv)
  have c: "first_token_is (id ''Na'') ''Na nelec 10''" by code_simp
  have g: "list_all (seg_continues (id ''Na'')) [''Na ul'']" by code_simp
  then have d: "\<forall>x\<in>set [''Na ul'']. seg_continues (id ''Na'') x"
    by (simp only: list_all_iff)
  have e: "strip ''  '' = []" by code_simp
  from a f c g e
    blank_line_in_segment [where std = id and symb = "''Na''" and flt = fix_flt, OF a b c d e]
  show ?thesis by blast
qed

text \<open>
  Claim C9 as stated takes any blank line between the first matching line and the end of
  the text. A blank line after the line of another element is never read: the loop has
  stopped, and \<open>parse_ecp\<close> returns the element's Ecp pair.
\<close>

theorem blank_line_after_segment_counterexample:
  "parse_ecp fix_flt id ''Na nelec 10\<newline>Na ul\<newline>1 0.5 10.0\<newline>K nelec 2\<newline>\<newline>K ul'' (Some ''Na'')
     = Inr (Some (10, [(- 1, [[], [[500000000, 10000000000]], [], []])]))"
  by code_simp


section \<open>The compound shell type SP\<close>

lemma parse_loop_append:
  "parse_loop flt st (xs @ ys)
     = (case parse_loop flt st xs of Inl e \<Rightarrow> Inl e | Inr st' \<Rightarrow> parse_loop flt st' ys)"
  by (induction xs arbitrary: st) (auto split: sum.splits)

lemma get_nat: "get xs (int n) = (if n < length xs then Inr (xs ! n) else Inl IndexError)"
  by (simp add: get_def py_index_def)

lemma append_at_last2: "append_at (ba @ [(a, S), (b, P)]) (- 2) r = Inr (ba @ [(a, S @ [r]), (b, P)])"
proof -
  have "py_index (length (ba @ [(a, S), (b, P)])) (- 2) = Some (length ba)"
    by (simp add: py_index_def)
  then show ?thesis by (simp add: append_at_def nth_append)
qed

lemma append_at_last1: "append_at (ba @ [(b, P)]) (- 1) r = Inr (ba @ [(b, P @ [r])])"
proof -
  have "py_index (length (ba @ [(b, P)])) (- 1) = Some (length ba)"
    by (simp add: py_index_def)
  then show ?thesis by (simp add: append_at_def nth_append)
qed

lemma parse_step_skip: "\<not> is_header x \<Longrightarrow> \<not> is_data x \<Longrightarrow> parse_step flt st x = Inr st"
  unfolding is_header_def is_data_def parse_step_def Let_def by auto

lemma parse_step_sp_header:
  "is_sp_header h \<Longrightarrow> parse_step flt st h = Inr (fst st @ [(0, []), (1, [])], Some ''SP'')"
  unfolding is_sp_header_def is_header_def parse_step_def Let_def by simp

lemma parse_step_sp_data:
  assumes "is_data x"
    and "parse_step flt (ba @ [(0, S), (1, P)], Some ''SP'') x = Inr st'"
  shows "3 \<le> length (row_of flt x)
       \<and> st' = (ba @ [(0, S @ [[row_of flt x ! 0, row_of flt x ! 1]]),
                       (1, P @ [[row_of flt x ! 0, row_of flt x ! 2]])], Some ''SP'')"
proof -
  from assms(1) have d: "strip x \<noteq> []" "\<not> startswith (strip x) ''#''" "\<not> isalpha (hd (strip x))"
    by (simp_all add: is_data_def Let_def)
  show ?thesis
  proof (cases "floats flt (py_split (replace_D (strip x)))")
    case (Inl e)
    with assms(2) d show ?thesis by (simp add: parse_step_def Let_def)
  next
    case (Inr ln)
    then have r: "row_of flt x = ln" by (simp add: row_of_def)
    have a2: "append_at ((ba @ [(0, S @ [[ln ! 0, ln ! 1]])]) @ [(1, P)]) (- 1) [ln ! 0, ln ! 2]
        = Inr ((ba @ [(0, S @ [[ln ! 0, ln ! 1]])]) @ [(1, P @ [[ln ! 0, ln ! 2]])])"
      by (rule append_at_last1)
    have g: "get ln 0 = get ln (int 0)" "get ln 1 = get ln (int 1)" "get ln 2 = get ln (int 2)"
      by simp_all
    show ?thesis
    proof (cases "3 \<le> length ln")
      case True
      then have "get ln 0 = Inr (ln ! 0)" "get ln 1 = Inr (ln ! 1)" "get ln 2 = Inr (ln ! 2)"
        unfolding g get_nat by auto
      with assms(2) d Inr a2 True r show ?thesis
        by (simp add: parse_step_def Let_def append_at_last2)
    next
      case False
      then have "get ln 0 = Inl IndexError \<or> get ln 1 = Inl IndexError \<or> get ln 2 = Inl IndexError"
        unfolding g get_nat by auto
      with assms(2) d Inr show ?thesis
        by (auto simp: parse_step_def Let_def split: sum.splits)
    qed
  qed
qed

lemma parse_loop_sp_data:
  "\<forall>x\<in>set ds. \<not> is_header x \<Longrightarrow>
   parse_loop flt (ba @ [(0, S), (1, P)], Some ''SP'') ds = Inr st' \<Longrightarrow>
   (\<forall>r\<in>set (data_rows flt ds). 3 \<le> length r)
   \<and> st' = (ba @ [(0, S @ map (\<lambda>r. [r ! 0, r ! 1]) (data_rows flt ds)),
                  (1, P @ map (\<lambda>r. [r ! 0, r ! 2]) (data_rows flt ds))], Some ''SP'')"
proof (induction ds arbitrary: S P)
  case Nil
  then show ?case by (simp add: data_rows_def)
next
  case (Cons x ds)
  then have nh: "\<not> is_header x" and rest: "\<forall>x\<in>set ds. \<not> is_header x" by simp_all
  from Cons.prems(2) obtain st1 where s1: "parse_step flt (ba @ [(0, S), (1, P)], Some ''SP'') x = Inr st1"
    and s2: "parse_loop flt st1 ds = Inr st'"
    by (auto split: sum.splits)
  show ?case
  proof (cases "is_data x")
    case True
    from parse_step_sp_data [OF True s1]
    have len: "3 \<le> length (row_of flt x)"
      and st1: "st1 = (ba @ [(0, S @ [[row_of flt x ! 0, row_of flt x ! 1]]),
                       (1, P @ [[row_of flt x ! 0, row_of flt x ! 2]])], Some ''SP'')"
      by simp_all
    from Cons.IH [OF rest s2 [unfolded st1]] len True show ?thesis
      by (simp add: data_rows_def)
  next
    case False
    with nh s1 have "st1 = (ba @ [(0, S), (1, P)], Some ''SP'')" by (simp add: parse_step_skip)
    with Cons.IH [OF rest] s2 False show ?thesis by (simp add: data_rows_def)
  qed
qed

lemma append_at_frame:
  assumes "i < 0" "- int (length Z) \<le> i"
  shows "append_at (X @ Z) i r = (case append_at Z i r of Inl e \<Rightarrow> Inl e | Inr Z' \<Rightarrow> Inr (X @ Z'))"
proof -
  let ?j = "nat (int (length Z) + i)"
  from assms have j: "?j < length Z" by linarith
  from assms have 1: "py_index (length Z) i = Some ?j" by (simp add: py_index_def)
  from assms have "nat (int (length X + length Z) + i) = length X + ?j" by simp
  with assms have 2: "py_index (length X + length Z) i = Some (length X + ?j)"
    by (auto simp: py_index_def)
  show ?thesis using j by (simp add: append_at_def 1 2 nth_append list_update_append)
qed

lemma append_at_length: "append_at Z i r = Inr Z' \<Longrightarrow> length Z' = length Z"
  using append_at_fst [of Z i r Z'] by (metis length_map)

lemma parse_step_key_ok:
  assumes "parse_step flt st line = Inr st'" "key_ok (snd st) (fst st)"
  shows "key_ok (snd st') (fst st')"
proof -
  from parse_step_cases [OF assms(1)] consider
      "st' = st"
    | "st' = (fst st @ [(0, []), (1, [])], Some ''SP'')"
    | k l where "MAPSPDF k = Some l" "st' = (fst st @ [(l, [])], Some k)"
    | "map fst (fst st') = map fst (fst st)" "snd st' = snd st"
    by blast
  then show ?thesis
  proof cases
    case 1
    with assms(2) show ?thesis by simp
  next
    case 2
    then show ?thesis by (simp add: key_ok_def)
  next
    case 3
    then have "k \<noteq> ''SP''" by (auto simp: MAPSPDF_def)
    with 3 show ?thesis by (simp add: key_ok_def)
  next
    case 4
    from 4(1) have "length (fst st') = length (fst st)" by (metis length_map)
    with 4(2) assms(2) show ?thesis by (auto simp: key_ok_def split: option.splits)
  qed
qed

lemma parse_step_header_eq:
  assumes "is_header line"
  shows "parse_step flt (B, k) line
         = (case get (py_split (strip line)) 1 of
              Inl e \<Rightarrow> Inl e
            | Inr key \<Rightarrow>
                if key = ''SP'' then Inr (B @ [(0, []), (1, [])], Some key)
                else (case MAPSPDF key of
                        None \<Rightarrow> Inl KeyError
                      | Some l \<Rightarrow> Inr (B @ [(l, [])], Some key)))"
  using assms by (simp add: parse_step_def is_header_def Let_def)

lemma parse_step_data_eq:
  assumes "is_data line"
  shows "parse_step flt (B, k) line
         = (case floats flt (py_split (replace_D (strip line))) of
              Inl e \<Rightarrow> Inl e
            | Inr ln \<Rightarrow>
                (case k of
                   None \<Rightarrow> Inl UnboundLocalError
                 | Some key \<Rightarrow>
                     if key = ''SP'' then
                       (case get ln 0 of Inl e \<Rightarrow> Inl e | Inr e0 \<Rightarrow>
                        case get ln 1 of Inl e \<Rightarrow> Inl e | Inr c1 \<Rightarrow>
                        case append_at B (- 2) [e0, c1] of Inl e \<Rightarrow> Inl e | Inr b1 \<Rightarrow>
                        case get ln 2 of Inl e \<Rightarrow> Inl e | Inr c2 \<Rightarrow>
                        case append_at b1 (- 1) [e0, c2] of Inl e \<Rightarrow> Inl e | Inr b2 \<Rightarrow>
                        Inr (b2, k))
                     else
                       (case append_at B (- 1) ln of Inl e \<Rightarrow> Inl e | Inr b1 \<Rightarrow>
                        Inr (b1, k))))"
  using assms by (simp add: parse_step_def is_data_def Let_def)

lemma parse_step_header_frame:
  assumes "is_header h"
  shows "parse_step flt (X, k) h
         = (case parse_step flt ([], None) h of Inl e \<Rightarrow> Inl e | Inr st \<Rightarrow> Inr (X @ fst st, snd st))"
  by (simp add: parse_step_header_eq [OF assms] split: sum.splits option.splits)

lemma parse_step_frame:
  assumes "key_ok k Z"
  shows "parse_step flt (X @ Z, k) line
         = (case parse_step flt (Z, k) line of Inl e \<Rightarrow> Inl e | Inr st \<Rightarrow> Inr (X @ fst st, snd st))"
proof -
  consider "is_header line" | "is_data line" | "\<not> is_header line" "\<not> is_data line" by blast
  then show ?thesis
  proof cases
    case 1
    then show ?thesis by (simp add: parse_step_header_eq split: sum.splits option.splits)
  next
    case 3
    then show ?thesis by (simp add: parse_step_skip)
  next
    case 2
    show ?thesis
    proof (cases k)
      case None
      then show ?thesis by (simp add: parse_step_data_eq [OF 2] split: sum.splits)
    next
      case (Some key)
      show ?thesis
      proof (cases "key = ''SP''")
        case sp: True
        with assms Some have len: "2 \<le> length Z" by (simp add: key_ok_def)
        then have f2: "\<And>r. append_at (X @ Z) (- 2) r
            = (case append_at Z (- 2) r of Inl e \<Rightarrow> Inl e | Inr Z' \<Rightarrow> Inr (X @ Z'))"
          by (intro append_at_frame) simp_all
        have f1: "\<And>Z' r. length Z' = length Z \<Longrightarrow> append_at (X @ Z') (- 1) r
            = (case append_at Z' (- 1) r of Inl e \<Rightarrow> Inl e | Inr Z'' \<Rightarrow> Inr (X @ Z''))"
          using len by (intro append_at_frame) simp_all
        show ?thesis
        proof (cases "floats flt (py_split (replace_D (strip line)))")
          case (Inl e)
          then show ?thesis using Some sp by (simp add: parse_step_data_eq [OF 2])
        next
          case ln: (Inr ln)
          show ?thesis
          proof (cases "get ln 0")
            case (Inl e)
            then show ?thesis using Some sp ln by (simp add: parse_step_data_eq [OF 2])
          next
            case e0: (Inr e0)
            show ?thesis
            proof (cases "get ln 1")
              case (Inl e)
              then show ?thesis using Some sp ln e0 by (simp add: parse_step_data_eq [OF 2])
            next
              case c1: (Inr c1)
              show ?thesis
              proof (cases "append_at Z (- 2) [e0, c1]")
                case (Inl e)
                then show ?thesis using Some sp ln e0 c1
                  by (simp add: parse_step_data_eq [OF 2] f2)
              next
                case b1: (Inr b1)
                then have lb: "length b1 = length Z" by (rule append_at_length)
                show ?thesis using Some sp ln e0 c1 b1
                  by (simp add: parse_step_data_eq [OF 2] f2 f1 [OF lb] split: sum.splits)
              qed
            qed
          qed
        qed
      next
        case nsp: False
        with assms Some have len: "1 \<le> length Z" by (simp add: key_ok_def)
        then have f1: "\<And>r. append_at (X @ Z) (- 1) r
            = (case append_at Z (- 1) r of Inl e \<Rightarrow> Inl e | Inr Z' \<Rightarrow> Inr (X @ Z'))"
          by (intro append_at_frame) simp_all
        show ?thesis using Some nsp
          by (simp add: parse_step_data_eq [OF 2] f1 split: sum.splits)
      qed
    qed
  qed
qed

lemma parse_loop_frame:
  "key_ok k Z \<Longrightarrow>
   parse_loop flt (X @ Z, k) lines
     = (case parse_loop flt (Z, k) lines of Inl e \<Rightarrow> Inl e | Inr st \<Rightarrow> Inr (X @ fst st, snd st))"
proof (induction lines arbitrary: Z k)
  case Nil
  then show ?case by simp
next
  case (Cons line lines)
  show ?case
  proof (cases "parse_step flt (Z, k) line")
    case (Inl e)
    with Cons.prems show ?thesis by (simp add: parse_step_frame)
  next
    case (Inr st)
    with Cons.prems have ok: "key_ok (snd st) (fst st)" using parse_step_key_ok by fastforce
    from Cons.IH [OF ok] Inr Cons.prems show ?thesis
      by (simp add: parse_step_frame)
  qed
qed

lemma parse_loop_from_header:
  assumes "post = [] \<or> is_header (hd post)"
    and "parse_loop flt (X, k) post = Inr st"
  shows "\<exists>st2. parse_loop flt ([], None) post = Inr st2 \<and> fst st = X @ fst st2"
proof (cases post)
  case Nil
  with assms(2) show ?thesis by auto
next
  case (Cons h rest)
  with assms(1) have h: "is_header h" by simp
  from assms(2) Cons obtain st1 where s1: "parse_step flt (X, k) h = Inr st1"
    and s2: "parse_loop flt st1 rest = Inr st"
    by (auto split: sum.splits)
  from s1 parse_step_header_frame [OF h, of flt X k]
  obtain st0 where s0: "parse_step flt ([], None) h = Inr st0" and st1: "st1 = (X @ fst st0, snd st0)"
    by (auto split: sum.splits)
  have "key_ok (snd ([] :: 'a shell list, None :: string option)) (fst ([] :: 'a shell list, None :: string option))"
    by (simp add: key_ok_def)
  with s0 have ok: "key_ok (snd st0) (fst st0)" by (rule parse_step_key_ok)
  from parse_loop_frame [OF ok, of flt X rest] s2 st1
  obtain st2 where "parse_loop flt (fst st0, snd st0) rest = Inr st2" "st = (X @ fst st2, snd st2)"
    by (auto split: sum.splits)
  with s0 Cons show ?thesis by simp
qed

text \<open>
  Claim C5. Let the lines that \<open>parse\<close> keeps be \<open>pre\<close>, then a header \<open>h\<close> of the shell type
  SP, then the lines \<open>ds\<close> up to the next header (or to the end), then \<open>post\<close>. Whenever
  \<open>parse\<close> returns, the header has produced exactly two shells, one with \<open>l = 0\<close> and one
  with \<open>l = 1\<close>, between the shells of \<open>pre\<close> and those of \<open>post\<close>; every data line of
  \<open>ds\<close> holds at least three numbers and gives the \<open>l = 0\<close> shell the row of its first and
  second number and the \<open>l = 1\<close> shell the row of its first and third, so that the two shells
  have one row for each data line. The result is that list of shells, grouped by \<open>l\<close>.
\<close>

theorem sp_header_two_shells:
  assumes "segment_of std text symb = Inr seg"
    and "bastxt_of seg = pre @ h # ds @ post"
    and "is_sp_header h"
    and "\<forall>x\<in>set ds. \<not> is_header x"
    and "post = [] \<or> is_header (hd post)"
    and "parse flt std text symb = Inr bs"
  shows "\<exists>before after.
           basis_add_of flt pre = Inr before \<and> basis_add_of flt post = Inr after \<and>
           (\<forall>r\<in>set (data_rows flt ds). 3 \<le> length r) \<and>
           bs = by_l [0 .. int MAXL - 1]
                  (before @ [(0, map (\<lambda>r. [r ! 0, r ! 1]) (data_rows flt ds)),
                             (1, map (\<lambda>r. [r ! 0, r ! 2]) (data_rows flt ds))] @ after)"
proof -
  from assms(1,2,6) obtain st where
    st: "parse_loop flt ([], None) (pre @ h # ds @ post) = Inr st"
    and bs: "bs = by_l [0 .. int MAXL - 1] (fst st)"
    by (auto simp: parse_def priv_parse_def basis_add_of_def split: sum.splits)
  from st obtain st1 where p1: "parse_loop flt ([], None) pre = Inr st1"
    and r1: "parse_loop flt st1 (h # ds @ post) = Inr st"
    by (auto simp: parse_loop_append split: sum.splits)
  from r1 parse_step_sp_header [OF assms(3), of flt st1]
  have r2: "parse_loop flt (fst st1 @ [(0, []), (1, [])], Some ''SP'') (ds @ post) = Inr st"
    by simp
  then obtain st3 where p3: "parse_loop flt (fst st1 @ [(0, []), (1, [])], Some ''SP'') ds = Inr st3"
    and r3: "parse_loop flt st3 post = Inr st"
    by (auto simp: parse_loop_append split: sum.splits)
  let ?S = "map (\<lambda>r. [r ! 0, r ! 1]) (data_rows flt ds)"
  let ?P = "map (\<lambda>r. [r ! 0, r ! 2]) (data_rows flt ds)"
  from parse_loop_sp_data [OF assms(4) p3]
  have len: "\<forall>r\<in>set (data_rows flt ds). 3 \<le> length r"
    and st3: "st3 = (fst st1 @ [(0, ?S), (1, ?P)], Some ''SP'')"
    by simp_all
  from r3 st3 have "parse_loop flt (fst st1 @ [(0, ?S), (1, ?P)], Some ''SP'') post = Inr st" by simp
  from parse_loop_from_header [OF assms(5) this]
  obtain st2 where p2: "parse_loop flt ([], None) post = Inr st2"
    and f: "fst st = (fst st1 @ [(0, ?S), (1, ?P)]) @ fst st2"
    by blast
  have "basis_add_of flt pre = Inr (fst st1)" using p1 by (simp add: basis_add_of_def)
  moreover have "basis_add_of flt post = Inr (fst st2)" using p2 by (simp add: basis_add_of_def)
  ultimately show ?thesis using len bs f by auto
qed

theorem sp_header_two_shells_witness:
  "bastxt_of ''O S\<newline>1 2\<newline>O SP\<newline>3 4 5\<newline>6 7 8\<newline>O P\<newline>9 10'' = [''O S'', ''1 2''] @ ''O SP'' # [''3 4 5'', ''6 7 8''] @ [''O P'', ''9 10'']
   \<and> is_sp_header ''O SP''
   \<and> filter is_header [''3 4 5'', ''6 7 8''] = []
   \<and> is_header (hd [''O P'', ''9 10''])
   \<and> parse fix_flt id ''O S\<newline>1 2\<newline>O SP\<newline>3 4 5\<newline>6 7 8\<newline>O P\<newline>9 10'' None
       = Inr [(0, [[1000000000, 2000000000]]), (0, [[3000000000, 4000000000], [6000000000, 7000000000]]),
            (1, [[3000000000, 5000000000], [6000000000, 8000000000]]), (1, [[9000000000, 10000000000]])]
   \<and> data_rows fix_flt [''3 4 5'', ''6 7 8'']
       = [[3000000000, 4000000000, 5000000000], [6000000000, 7000000000, 8000000000]]
   \<and> (\<exists>before after.
         basis_add_of fix_flt [''O S'', ''1 2''] = Inr before \<and>
         basis_add_of fix_flt [''O P'', ''9 10''] = Inr after \<and>
         (\<forall>r\<in>set (data_rows fix_flt [''3 4 5'', ''6 7 8'']). 3 \<le> length r) \<and>
         [(0, [[1000000000, 2000000000]]), (0, [[3000000000, 4000000000], [6000000000, 7000000000]]),
            (1, [[3000000000, 5000000000], [6000000000, 8000000000]]), (1, [[9000000000, 10000000000]])]
         = by_l [0 .. int MAXL - 1]
             (before @ [(0, map (\<lambda>r. [r ! 0, r ! 1]) (data_rows fix_flt [''3 4 5'', ''6 7 8''])),
                        (1, map (\<lambda>r. [r ! 0, r ! 2]) (data_rows fix_flt [''3 4 5'', ''6 7 8'']))] @ after))"
proof -
  have a: "segment_of id ''O S\<newline>1 2\<newline>O SP\<newline>3 4 5\<newline>6 7 8\<newline>O P\<newline>9 10'' None = Inr ''O S\<newline>1 2\<newline>O SP\<newline>3 4 5\<newline>6 7 8\<newline>O P\<newline>9 10''"
    by (simp add: segment_of_def)
  have b: "bastxt_of ''O S\<newline>1 2\<newline>O SP\<newline>3 4 5\<newline>6 7 8\<newline>O P\<newline>9 10'' = [''O S'', ''1 2''] @ ''O SP'' # [''3 4 5'', ''6 7 8''] @ [''O P'', ''9 10'']"
    by code_simp
  have c: "is_sp_header ''O SP''" by code_simp
  have f: "filter is_header [''3 4 5'', ''6 7 8''] = []" by code_simp
  then have d: "\<forall>x\<in>set [''3 4 5'', ''6 7 8'']. \<not> is_header x" by (simp only: filter_empty_conv)
  have g: "is_header (hd [''O P'', ''9 10''])" by code_simp
  then have e: "[''O P'', ''9 10''] = [] \<or> is_header (hd [''O P'', ''9 10''])" by (rule disjI2)
  have p: "parse fix_flt id ''O S\<newline>1 2\<newline>O SP\<newline>3 4 5\<newline>6 7 8\<newline>O P\<newline>9 10'' None
       = Inr [(0, [[1000000000, 2000000000]]), (0, [[3000000000, 4000000000], [6000000000, 7000000000]]),
            (1, [[3000000000, 5000000000], [6000000000, 8000000000]]), (1, [[9000000000, 10000000000]])]"
    by code_simp
  have r: "data_rows fix_flt [''3 4 5'', ''6 7 8'']
       = [[3000000000, 4000000000, 5000000000], [6000000000, 7000000000, 8000000000]]"
    by code_simp
  have "(\<exists>before after.
         basis_add_of fix_flt [''O S'', ''1 2''] = Inr before \<and>
         basis_add_of fix_flt [''O P'', ''9 10''] = Inr after \<and>
         (\<forall>r\<in>set (data_rows fix_flt [''3 4 5'', ''6 7 8'']). 3 \<le> length r) \<and>
         [(0, [[1000000000, 2000000000]]), (0, [[3000000000, 4000000000], [6000000000, 7000000000]]),
            (1, [[3000000000, 5000000000], [6000000000, 8000000000]]), (1, [[9000000000, 10000000000]])]
         = by_l [0 .. int MAXL - 1]
             (before @ [(0, map (\<lambda>r. [r ! 0, r ! 1]) (data_rows fix_flt [''3 4 5'', ''6 7 8''])),
                        (1, map (\<lambda>r. [r ! 0, r ! 2]) (data_rows fix_flt [''3 4 5'', ''6 7 8'']))] @ after))"
    using a b c d e p by (rule sp_header_two_shells)
  with b c f g p r show ?thesis by blast
qed


end
